theory Spec2Isabelle
  imports Complex_Main "HOL-Library.Multiset" "HOL-Library.Product_Lexorder"
begin

section \<open>Dates and numbers of the host language\<close>

text \<open>
  A \<open>Date\<close> is its \<open>getTime()\<close> value: milliseconds since the epoch, read in UTC.
\<close>

type_synonym date = int

definition getUTCHours :: "date \<Rightarrow> int" where
  "getUTCHours t = (t div 3600000) mod 24"

definition getUTCMinutes :: "date \<Rightarrow> int" where
  "getUTCMinutes t = (t div 60000) mod 60"

definition getUTCSeconds :: "date \<Rightarrow> int" where
  "getUTCSeconds t = (t div 1000) mod 60"

text \<open>\<open>d.setUTCHours(h)\<close> replaces the hour field and keeps day, minutes, seconds and milliseconds.\<close>

definition setUTCHours :: "date \<Rightarrow> int \<Rightarrow> date" where
  "setUTCHours t h = t - getUTCHours t * 3600000 + h * 3600000"

text \<open>The remainder operator \<open>%\<close> on integers: the result has the sign of the dividend.\<close>

definition js_mod :: "int \<Rightarrow> int \<Rightarrow> int" where
  "js_mod a b = sgn a * (\<bar>a\<bar> mod \<bar>b\<bar>)"

text \<open>
  Numbers are exact here: hours, minutes and milliseconds are integers, minutes with a
  fraction are rationals. A number that may be \<open>undefined\<close> or \<open>NaN\<close> is an option,
  \<open>None\<close> standing for both; every comparison with it is false.
\<close>

definition js_lt :: "'a::linorder option \<Rightarrow> 'a option \<Rightarrow> bool" where
  "js_lt a b = (case a of None \<Rightarrow> False | Some x \<Rightarrow> (case b of None \<Rightarrow> False | Some y \<Rightarrow> x < y))"

definition js_ge :: "'a::linorder option \<Rightarrow> 'a option \<Rightarrow> bool" where
  "js_ge a b = (case a of None \<Rightarrow> False | Some x \<Rightarrow> (case b of None \<Rightarrow> False | Some y \<Rightarrow> y \<le> x))"

definition js_gt :: "'a::linorder option \<Rightarrow> 'a option \<Rightarrow> bool" where
  "js_gt a b = js_lt b a"

text \<open>
  \<open>Array.prototype.sort(comparefn)\<close> belongs to the engine, and sorts the array it is
  called on in place. None of the comparators of the facade ever answers 0, so the
  language leaves the order of elements that compare alike to the engine. The sort is
  taken here as V8 (Chrome, Node, Electron; version 7.0 and later) does it for an array
  of fewer than 64 elements, where the whole array is one run:

  \<^item> \<open>countRun\<close>: the run at the start of the array is found by asking
    \<open>comparefn(current, previous)\<close>; it is descending when the second element answers a
    negative number against the first and then goes on while the answers are negative,
    otherwise it goes on while they are not negative; a descending run is reversed;
  \<^item> \<open>binarySearch\<close>, \<open>binaryInsert\<close>: every later element, the pivot, is put into the
    part already sorted at the place a binary search finds, asking
    \<open>comparefn(pivot, middle)\<close> and going left on a negative answer and right otherwise.

  Only the sign of an answer is looked at, and always as negative or not. An array of 64
  elements or more V8 cuts into runs, sorts each in this way and merges them; when the
  comparator orders the elements by a key that gives the same array as sorting it as one
  run, which is what is done here for every length.
\<close>

fun countRun :: "('a \<Rightarrow> 'a \<Rightarrow> int) \<Rightarrow> bool \<Rightarrow> 'a \<Rightarrow> 'a list \<Rightarrow> nat" where
  "countRun comparefn isDescending previousElement [] = 0"
| "countRun comparefn isDescending previousElement (currentElement # rest) =
     (let order = comparefn currentElement previousElement in
      if isDescending then
        (if order \<ge> 0 then 0 else Suc (countRun comparefn isDescending currentElement rest))
      else
        (if order < 0 then 0 else Suc (countRun comparefn isDescending currentElement rest)))"

text \<open>The run at the start, made ascending, and the elements after it.\<close>

fun countAndMakeRun :: "('a \<Rightarrow> 'a \<Rightarrow> int) \<Rightarrow> 'a list \<Rightarrow> 'a list \<times> 'a list" where
  "countAndMakeRun comparefn [] = ([], [])"
| "countAndMakeRun comparefn [element] = ([element], [])"
| "countAndMakeRun comparefn (elementHigh # elementLow # rest) =
     (let isDescending = (comparefn elementLow elementHigh < 0);
          runLength = 2 + countRun comparefn isDescending elementLow rest
      in (if isDescending then rev (take runLength (elementHigh # elementLow # rest))
          else take runLength (elementHigh # elementLow # rest),
          drop runLength (elementHigh # elementLow # rest)))"

function binarySearch :: "('a \<Rightarrow> 'a \<Rightarrow> int) \<Rightarrow> 'a \<Rightarrow> 'a list \<Rightarrow> nat \<Rightarrow> nat \<Rightarrow> nat" where
  "binarySearch comparefn pivot workArray left right =
     (if left < right then
        (let mid = left + (right - left) div 2 in
         if comparefn pivot (workArray ! mid) < 0
         then binarySearch comparefn pivot workArray left mid
         else binarySearch comparefn pivot workArray (mid + 1) right)
      else left)"
  by pat_completeness auto
termination
  by (relation "measure (\<lambda>(comparefn, pivot, workArray, left, right). right - left)") auto

declare binarySearch.simps [simp del]

definition binaryInsert :: "('a \<Rightarrow> 'a \<Rightarrow> int) \<Rightarrow> 'a list \<Rightarrow> 'a \<Rightarrow> 'a list" where
  "binaryInsert comparefn workArray pivot =
     (let left = binarySearch comparefn pivot workArray 0 (length workArray)
      in take left workArray @ pivot # drop left workArray)"

definition js_sort :: "('a \<Rightarrow> 'a \<Rightarrow> int) \<Rightarrow> 'a list \<Rightarrow> 'a list" where
  "js_sort comparefn xs =
     (case countAndMakeRun comparefn xs of (run, rest) \<Rightarrow> foldl (binaryInsert comparefn) run rest)"

section \<open>Data model\<close>

datatype error = TypeError | RangeError

record Alarm =
  itemId :: int
  mapId :: int
  spawns :: "int list option"
  duration :: int
  weathers :: "int list option"
  groupId :: "string option"

record NextSpawn =
  hours :: "int option"
  days :: int
  despawn :: "int option"

record AlarmDisplay =
  alarm :: Alarm
  spawned :: bool
  played :: bool
  remainingTime :: "rat option"
  nextSpawn :: NextSpawn

text \<open>
  An alarm as the facade reads it: \<open>spawns\<close> and \<open>weathers\<close> may be absent
  (\<open>undefined\<close>). A \<open>NextSpawn\<close> whose \<open>hours\<close> is \<open>None\<close> has an undefined hour, and
  one whose \<open>despawn\<close> is \<open>None\<close> has none, or \<open>NaN\<close>.

  The collaborators injected into the facade, whose code is elsewhere, are parameters:
  the time service (the constant \<open>EPOCH_TIME_FACTOR\<close>, a non-zero ratio, and
  \<open>toEarthTime\<close>, which is applied to numbers only, \<open>NaN\<close> staying \<open>NaN\<close>), the settings
  (\<open>alarmHoursBefore\<close>) and the weather service. With them goes what the engine gives:
  \<open>stackDepth\<close>, the number of nested calls of \<open>findWeatherSpawnCombination\<close> the call
  stack has room for when \<open>getNextSpawn\<close> calls it; the call after the last of them
  throws \<open>RangeError\<close>.
\<close>

record Env =
  EPOCH_TIME_FACTOR :: rat
  toEarthTime :: "rat \<Rightarrow> rat"
  alarmHoursBefore :: rat
  getNextWeatherStart :: "int \<Rightarrow> int \<Rightarrow> date \<Rightarrow> date"
  nextWeatherTime :: "date \<Rightarrow> date"
  stackDepth :: nat

section \<open>The facade\<close>

text \<open>\<open>getMinutesBefore(currentTime, spawn, minutes = 0)\<close>.\<close>

definition getMinutesBefore :: "Env \<Rightarrow> date \<Rightarrow> NextSpawn \<Rightarrow> int \<Rightarrow> rat option" where
  "getMinutesBefore env currentTime spawn minutes =
     (case hours spawn of
        None \<Rightarrow> None
      | Some h0 \<Rightarrow>
         (let h = (if h0 = 0 then 24 else h0);
              resHours = js_mod (h - getUTCHours currentTime) 24;
              resMinutes = resHours * 60 + minutes - getUTCMinutes currentTime;
              resSeconds = resHours * 3600 + minutes * 60 - getUTCSeconds currentTime;
              resMinutes1 = (if resMinutes < 0 then resMinutes + 1440 else resMinutes);
              resSeconds1 = (if resSeconds < 0 then resSeconds + 360 else resSeconds);
              resMinutes2 = of_int resMinutes1 + of_int (js_mod resSeconds1 60) / 60
          in Some (resMinutes2 + of_int (days spawn) * 1440 / EPOCH_TIME_FACTOR env)))"

text \<open>The comparator \<open>getNextSpawn\<close> sorts the spawn hours with.\<close>

definition compareSpawns :: "Env \<Rightarrow> Alarm \<Rightarrow> date \<Rightarrow> int \<Rightarrow> int \<Rightarrow> int" where
  "compareSpawns env a time x y =
     (let timeBeforeA = getMinutesBefore env time \<lparr>hours = Some x, days = 0, despawn = None\<rparr> 0;
          timeBeforeADespawns = getMinutesBefore env time
             \<lparr>hours = Some (js_mod (x + duration a) 24), days = 0, despawn = None\<rparr> 0;
          timeBeforeB = getMinutesBefore env time \<lparr>hours = Some y, days = 0, despawn = None\<rparr> 0;
          timeBeforeBDespawns = getMinutesBefore env time
             \<lparr>hours = Some (js_mod (y + duration a) 24), days = 0, despawn = None\<rparr> 0
      in if js_lt timeBeforeADespawns timeBeforeA then - 1
         else if js_lt timeBeforeBDespawns timeBeforeB then 1
         else if js_lt timeBeforeA timeBeforeB then - 1 else 1)"

text \<open>
  The two nested loops of \<open>findWeatherSpawnCombination\<close>: \<open>matchWeather\<close> is the inner
  loop over the weather starts for one spawn hour, \<open>matchSpawns\<close> the outer loop over the
  sorted spawn hours; \<open>None\<close> is falling out of the loop without a \<open>return\<close>.
\<close>

fun matchWeather :: "Env \<Rightarrow> date \<Rightarrow> int \<Rightarrow> int \<Rightarrow> date list \<Rightarrow> NextSpawn option" where
  "matchWeather env time spawn despawnH [] = None"
| "matchWeather env time spawn despawnH (weatherSpawn # rest) =
     (let weatherStart = getUTCHours weatherSpawn;
          stopH = getUTCHours (nextWeatherTime env weatherSpawn);
          weatherStop = (if stopH = 0 then 24 else stopH)
      in if weatherStart < despawnH \<and> weatherStart \<ge> spawn then
           Some \<lparr>hours = Some weatherStart,
                 days = (weatherSpawn - time) div 86400000,
                 despawn = Some despawnH\<rparr>
         else if weatherStop > spawn then
           Some \<lparr>hours = Some spawn,
                 days = (setUTCHours weatherSpawn spawn - time) div 86400000,
                 despawn = Some weatherStop\<rparr>
         else matchWeather env time spawn despawnH rest)"

fun matchSpawns :: "Env \<Rightarrow> Alarm \<Rightarrow> date \<Rightarrow> int list \<Rightarrow> date list \<Rightarrow> NextSpawn option" where
  "matchSpawns env a time [] weatherSpawns = None"
| "matchSpawns env a time (spawn # rest) weatherSpawns =
     (case matchWeather env time spawn (js_mod (spawn + duration a) 24) weatherSpawns of
        Some r \<Rightarrow> Some r
      | None \<Rightarrow> matchSpawns env a time rest weatherSpawns)"

definition weatherSpawnsAt :: "Env \<Rightarrow> Alarm \<Rightarrow> int list \<Rightarrow> date \<Rightarrow> date list" where
  "weatherSpawnsAt env a ws iteration =
     js_sort (\<lambda>x y. x - y) (map (\<lambda>weather. getNextWeatherStart env (mapId a) weather iteration) ws)"

text \<open>
  \<open>findWeatherSpawnCombination\<close> calls itself with a later \<open>iteration\<close> when no
  combination matches. Nothing in the code bounds the recursion; the engine's call stack
  does: \<open>depth\<close> is the number of nested calls there is room for, and a call made when
  none is left throws \<open>RangeError\<close>. The recursion is written as the code has it, with an
  option around the result, \<open>None\<close> for a search that does not return; that it returns on
  every input is proved below. A thrown error is \<open>Inl\<close>; \<open>TypeError\<close> comes from reading
  \<open>weatherSpawns[weatherSpawns.length - 1].getTime()\<close> of an empty array, or \<open>map\<close> of
  absent weathers.
\<close>

partial_function (option) findWeatherSpawnCombination ::
  "Env \<Rightarrow> Alarm \<Rightarrow> int list \<Rightarrow> date \<Rightarrow> date \<Rightarrow> nat \<Rightarrow> (error + NextSpawn) option" where
  "findWeatherSpawnCombination env a sortedSpawns time iteration depth =
     (if depth = 0 then Some (Inl RangeError)
      else
       (case weathers a of
          None \<Rightarrow> Some (Inl TypeError)
        | Some ws \<Rightarrow>
           (let weatherSpawns = weatherSpawnsAt env a ws iteration in
            case matchSpawns env a time sortedSpawns weatherSpawns of
              Some r \<Rightarrow> Some (Inr r)
            | None \<Rightarrow>
               if weatherSpawns = [] then Some (Inl TypeError)
               else findWeatherSpawnCombination env a sortedSpawns time
                      (last weatherSpawns + 86400000) (depth - 1))))"

text \<open>
  \<open>getNextSpawn\<close> sorts \<open>alarm.spawns\<close> in place, so the alarm is returned with the
  result. \<open>sortedSpawns[0]\<close> of an empty array is \<open>undefined\<close>.
\<close>

definition getNextSpawn :: "Env \<Rightarrow> Alarm \<Rightarrow> date \<Rightarrow> (error + NextSpawn \<times> Alarm) option" where
  "getNextSpawn env a time =
     (case spawns a of
        None \<Rightarrow> Some (Inl TypeError)
      | Some xs \<Rightarrow>
         (let sortedSpawns = js_sort (compareSpawns env a time) xs;
              a' = a\<lparr>spawns := Some sortedSpawns\<rparr>
          in if weathers a \<noteq> None then
               (case findWeatherSpawnCombination env a' sortedSpawns time time (stackDepth env) of
                  None \<Rightarrow> None
                | Some (Inl e) \<Rightarrow> Some (Inl e)
                | Some (Inr r) \<Rightarrow> Some (Inr (r, a')))
             else
               Some (Inr (\<lparr>hours = (case sortedSpawns of [] \<Rightarrow> None | s # _ \<Rightarrow> Some s),
                           days = 0,
                           despawn = (case sortedSpawns of [] \<Rightarrow> None
                                      | s # _ \<Rightarrow> Some (js_mod (s + duration a) 24))\<rparr>, a'))))"

text \<open>
  Sequencing of calls that may throw or not return: the first failure is the result.
\<close>

definition andThen :: "(error + 'a) option \<Rightarrow> ('a \<Rightarrow> (error + 'b) option) \<Rightarrow> (error + 'b) option" where
  "andThen m f = (case m of None \<Rightarrow> None | Some (Inl e) \<Rightarrow> Some (Inl e) | Some (Inr x) \<Rightarrow> f x)"

definition isSpawned :: "Env \<Rightarrow> Alarm \<Rightarrow> date \<Rightarrow> (error + bool \<times> Alarm) option" where
  "isSpawned env a time =
     andThen (getNextSpawn env a time) (\<lambda>(nextSpawn, a').
       Some (Inr
         (if days nextSpawn > 0 then False
          else
            (let despawn1 = (if despawn nextSpawn = Some 0 then Some 24 else despawn nextSpawn);
                 spawn1 = (if hours nextSpawn = Some 0 then Some 24 else hours nextSpawn);
                 despawnsNextDay = js_gt spawn1 despawn1;
                 h = Some (getUTCHours time)
             in if \<not> despawnsNextDay then js_ge h spawn1 \<and> js_lt h despawn1
                else js_ge h spawn1 \<or> js_lt h despawn1), a')))"

definition isPlayed :: "Env \<Rightarrow> Alarm \<Rightarrow> date \<Rightarrow> (error + bool \<times> Alarm) option" where
  "isPlayed env a time =
     andThen (getNextSpawn env a time) (\<lambda>(nextSpawn, a').
       Some (Inr (js_lt (getMinutesBefore env time nextSpawn 0) (Some (alarmHoursBefore env * 60)), a')))"

text \<open>
  \<open>createDisplay\<close> resolves the next spawn four times, each time on the alarm as the
  call before left it. The display refers to the alarm; it is given here as it is when
  \<open>createDisplay\<close> returns.
\<close>

definition createDisplay :: "Env \<Rightarrow> Alarm \<Rightarrow> date \<Rightarrow> (error + AlarmDisplay \<times> Alarm) option" where
  "createDisplay env a date =
     andThen (isSpawned env a date) (\<lambda>(isSp, a1).
     andThen (isPlayed env a1 date) (\<lambda>(isPl, a2).
     andThen (getNextSpawn env a2 date) (\<lambda>(spawn, a3).
     andThen (getNextSpawn env a3 date) (\<lambda>(next, a4).
       (let minutesBefore =
              (if isSp then
                 getMinutesBefore env date
                   (spawn\<lparr>hours := map_option (\<lambda>h. js_mod (h + duration a3) 24) (hours spawn)\<rparr>) 0
               else getMinutesBefore env date spawn 0)
        in Some (Inr (\<lparr>alarm = a4, spawned = isSp, played = isPl,
                        remainingTime = map_option (toEarthTime env) minutesBefore,
                        nextSpawn = next\<rparr>, a4)))))))"

text \<open>The comparator of \<open>sortAlarmDisplays\<close>.\<close>

definition compareDisplays :: "AlarmDisplay \<Rightarrow> AlarmDisplay \<Rightarrow> int" where
  "compareDisplays x y =
     (if spawned x \<and> spawned y then (if js_lt (remainingTime x) (remainingTime y) then - 1 else 1)
      else if spawned x then - 1
      else if spawned y then 1
      else (if js_lt (remainingTime x) (remainingTime y) then - 1 else 1))"

definition sortAlarmDisplays :: "AlarmDisplay list \<Rightarrow> AlarmDisplay list" where
  "sortAlarmDisplays alarms = js_sort compareDisplays alarms"

text \<open>
  \<open>alarms.map(alarm => createDisplay(alarm, date))\<close>, left to right; an exception in one
  call ends the whole \<open>map\<close>.
\<close>

fun mapCreateDisplay :: "Env \<Rightarrow> date \<Rightarrow> Alarm list \<Rightarrow> (error + AlarmDisplay list) option" where
  "mapCreateDisplay env date [] = Some (Inr [])"
| "mapCreateDisplay env date (a # rest) =
     andThen (createDisplay env a date) (\<lambda>(d, a').
     andThen (mapCreateDisplay env date rest) (\<lambda>ds. Some (Inr (d # ds))))"

text \<open>
  \<open>createDisplayArray\<close>: the alarms sorted in place on the way are the \<open>alarm\<close> fields of
  the displays returned; the alarms filtered out are not touched.
\<close>

definition createDisplayArray :: "Env \<Rightarrow> Alarm list \<Rightarrow> date \<Rightarrow> (error + AlarmDisplay list) option" where
  "createDisplayArray env alarms date =
     andThen (mapCreateDisplay env date (filter (\<lambda>a. spawns a \<noteq> None) alarms))
       (\<lambda>ds. Some (Inr (sortAlarmDisplays ds)))"

text \<open>
  The same calls seen from the array they are made on: \<open>displayEach\<close> is
  \<open>alarms.filter(chosen).map(alarm => createDisplay(alarm, date))\<close>, returning with the
  displays the array \<open>alarms\<close>, each alarm as the calls leave it, and
  \<open>createDisplayArrayOf\<close> is \<open>createDisplayArray(alarms.filter(chosen), date)\<close>. The
  filtered array holds the alarms of the array it was taken from, not copies.
\<close>

fun displayEach ::
  "Env \<Rightarrow> date \<Rightarrow> (Alarm \<Rightarrow> bool) \<Rightarrow> Alarm list \<Rightarrow> (error + AlarmDisplay list \<times> Alarm list) option" where
  "displayEach env date chosen [] = Some (Inr ([], []))"
| "displayEach env date chosen (a # rest) =
     (if chosen a then
        andThen (createDisplay env a date) (\<lambda>(d, a').
        andThen (displayEach env date chosen rest) (\<lambda>(ds, rest'). Some (Inr (d # ds, a' # rest'))))
      else
        andThen (displayEach env date chosen rest) (\<lambda>(ds, rest'). Some (Inr (ds, a # rest'))))"

definition createDisplayArrayOf ::
  "Env \<Rightarrow> (Alarm \<Rightarrow> bool) \<Rightarrow> Alarm list \<Rightarrow> date \<Rightarrow> (error + AlarmDisplay list \<times> Alarm list) option" where
  "createDisplayArrayOf env chosen alarms date =
     andThen (displayEach env date (\<lambda>a. chosen a \<and> spawns a \<noteq> None) alarms)
       (\<lambda>(ds, alarms'). Some (Inr (sortAlarmDisplays ds, alarms')))"

subsection \<open>The page and the sidebar\<close>

text \<open>
  The groups and the two views, as the facade reads and builds them (\<open>key\<close> is \<open>$key\<close>).
  \<open>alarmsPageDisplay\<close> is the function mapped over the time, the alarms and the groups:
  it sorts the array of groups in place, builds the displays of each group in that order
  and then those of the alarms no group claims; it is returned with the alarms and the
  groups as it leaves them. \<open>alarmsSidebarDisplay\<close> is the function mapped over the page
  display. A display is given as its alarm is when \<open>createDisplay\<close> returns; an alarm is
  displayed once unless two groups share a key.
\<close>

record AlarmGroup =
  key :: "string option"
  name :: string
  index :: int
  enabled :: bool

record AlarmGroupDisplay =
  group :: AlarmGroup
  alarms :: "AlarmDisplay list"

record AlarmsPageDisplay =
  groupedAlarms :: "AlarmGroupDisplay list"
  noGroup :: "AlarmDisplay list"

definition compareGroups :: "AlarmGroup \<Rightarrow> AlarmGroup \<Rightarrow> int" where
  "compareGroups x y = (if index x < index y then - 1 else 1)"

fun groupDisplays ::
  "Env \<Rightarrow> date \<Rightarrow> AlarmGroup list \<Rightarrow> Alarm list \<Rightarrow> (error + AlarmGroupDisplay list \<times> Alarm list) option" where
  "groupDisplays env date [] alarmList = Some (Inr ([], alarmList))"
| "groupDisplays env date (g # rest) alarmList =
     andThen (createDisplayArrayOf env (\<lambda>a. groupId a \<noteq> None \<and> groupId a = key g) alarmList date)
       (\<lambda>(ds, alarmList1).
     andThen (groupDisplays env date rest alarmList1)
       (\<lambda>(gds, alarmList2). Some (Inr (\<lparr>group = g, alarms = ds\<rparr> # gds, alarmList2))))"

definition alarmsPageDisplay ::
  "Env \<Rightarrow> date \<Rightarrow> Alarm list \<Rightarrow> AlarmGroup list
     \<Rightarrow> (error + AlarmsPageDisplay \<times> Alarm list \<times> AlarmGroup list) option" where
  "alarmsPageDisplay env date alarmList groups =
     (let sortedGroups = js_sort compareGroups groups in
      andThen (groupDisplays env date sortedGroups alarmList) (\<lambda>(grouped, alarmList1).
      andThen (createDisplayArrayOf env
                 (\<lambda>a. find (\<lambda>g. key g \<noteq> None \<and> key g = groupId a) sortedGroups = None)
                 alarmList1 date) (\<lambda>(ungrouped, alarmList2).
        Some (Inr (\<lparr>groupedAlarms = grouped, noGroup = ungrouped\<rparr>, alarmList2, sortedGroups)))))"

definition alarmsSidebarDisplay :: "AlarmsPageDisplay \<Rightarrow> AlarmDisplay list" where
  "alarmsSidebarDisplay page =
     sortAlarmDisplays
       (noGroup page @ concat (map alarms (filter (\<lambda>gd. enabled (group gd)) (groupedAlarms page))))"

section \<open>Notions used in the statements\<close>

text \<open>
  What \<open>getNextSpawn\<close> and \<open>createDisplay\<close> return to their caller, the alarm they
  leave behind set aside.
\<close>

definition resolveNextSpawn :: "Env \<Rightarrow> Alarm \<Rightarrow> date \<Rightarrow> (error + NextSpawn) option" where
  "resolveNextSpawn env a time = map_option (map_sum id fst) (getNextSpawn env a time)"

definition displayOf :: "Env \<Rightarrow> Alarm \<Rightarrow> date \<Rightarrow> (error + AlarmDisplay) option" where
  "displayOf env a date = map_option (map_sum id fst) (createDisplay env a date)"

text \<open>The whole minutes \<open>getMinutesBefore\<close> starts from, before the seconds are added.\<close>

definition wholeMinutes :: "date \<Rightarrow> int \<Rightarrow> int" where
  "wholeMinutes t h0 =
     (let rm = js_mod ((if h0 = 0 then 24 else h0) - getUTCHours t) 24 * 60 - getUTCMinutes t
      in if rm < 0 then rm + 1440 else rm)"

text \<open>The test \<open>isSpawned\<close> makes on a resolved spawn, and the display \<open>createDisplay\<close> fills in.\<close>

definition windowOpen :: "NextSpawn \<Rightarrow> date \<Rightarrow> bool" where
  "windowOpen ns time =
     (if days ns > 0 then False
      else
        (let despawn1 = (if despawn ns = Some 0 then Some 24 else despawn ns);
             spawn1 = (if hours ns = Some 0 then Some 24 else hours ns);
             despawnsNextDay = js_gt spawn1 despawn1;
             h = Some (getUTCHours time)
         in if \<not> despawnsNextDay then js_ge h spawn1 \<and> js_lt h despawn1
            else js_ge h spawn1 \<or> js_lt h despawn1))"

definition filledDisplay ::
  "Env \<Rightarrow> date \<Rightarrow> bool \<Rightarrow> bool \<Rightarrow> NextSpawn \<Rightarrow> Alarm \<Rightarrow> NextSpawn \<Rightarrow> Alarm \<Rightarrow> AlarmDisplay" where
  "filledDisplay env date isSp isPl spawn a3 next a4 =
     \<lparr>alarm = a4, spawned = isSp, played = isPl,
      remainingTime = map_option (toEarthTime env)
        (if isSp then
           getMinutesBefore env date
             (spawn\<lparr>hours := map_option (\<lambda>h. js_mod (h + duration a3) 24) (hours spawn)\<rparr>) 0
         else getMinutesBefore env date spawn 0),
      nextSpawn = next\<rparr>"

text \<open>
  What one call of \<open>getNextSpawn\<close> leaves of the alarm, and what it returns for an alarm
  without weathers.
\<close>

definition resort :: "Env \<Rightarrow> date \<Rightarrow> Alarm \<Rightarrow> Alarm" where
  "resort env time a = a\<lparr>spawns := map_option (js_sort (compareSpawns env a time)) (spawns a)\<rparr>"

definition plainSpawn :: "int list \<Rightarrow> int \<Rightarrow> NextSpawn" where
  "plainSpawn sortedSpawns d =
     \<lparr>hours = (case sortedSpawns of [] \<Rightarrow> None | s # _ \<Rightarrow> Some s), days = 0,
      despawn = (case sortedSpawns of [] \<Rightarrow> None | s # _ \<Rightarrow> Some (js_mod (s + d) 24))\<rparr>"

definition resolved :: "Env \<Rightarrow> date \<Rightarrow> Alarm \<Rightarrow> NextSpawn" where
  "resolved env time a =
     plainSpawn (case spawns (resort env time a) of None \<Rightarrow> [] | Some ys \<Rightarrow> ys) (duration a)"



text \<open>
  The order of the sorting policy: a spawned display before one that is not, and within
  the same partition the smaller remaining time first.
\<close>

definition mayPrecede :: "AlarmDisplay \<Rightarrow> AlarmDisplay \<Rightarrow> bool" where
  "mayPrecede x y =
     ((spawned x \<and> \<not> spawned y)
      \<or> (spawned x = spawned y \<and> js_ge (remainingTime y) (remainingTime x)))"

text \<open>
  The key of a display whose remaining time is a number: the partition, spawned first,
  and then the remaining time; pairs are compared with the first component first.
\<close>

definition displayKey :: "AlarmDisplay \<Rightarrow> nat \<times> rat" where
  "displayKey d =
     (if spawned d then 0 else 1, case remainingTime d of None \<Rightarrow> 0 | Some r \<Rightarrow> r)"

text \<open>An alarm that differs from another at most in the order of its spawn hours.\<close>

definition reordered :: "Alarm \<Rightarrow> Alarm \<Rightarrow> bool" where
  "reordered a a' =
     (itemId a' = itemId a \<and> mapId a' = mapId a \<and> duration a' = duration a
      \<and> weathers a' = weathers a \<and> groupId a' = groupId a
      \<and> map_option mset (spawns a') = map_option mset (spawns a))"

text \<open>The \<open>iteration\<close> argument of the weather search after \<open>n\<close> rounds without a match.\<close>

fun nthIteration :: "Env \<Rightarrow> Alarm \<Rightarrow> int list \<Rightarrow> date \<Rightarrow> nat \<Rightarrow> date" where
  "nthIteration env a ws iteration 0 = iteration"
| "nthIteration env a ws iteration (Suc n) =
     last (weatherSpawnsAt env a ws (nthIteration env a ws iteration n)) + 86400000"

section \<open>Collaborators, alarms and displays of the scenarios\<close>

text \<open>
  Three weather timelines, each with the ratio 144/7 between game time and real time, a
  conversion that divides by it, a lead time of one hour, room for 2500 nested calls, and
  weather lasting eight hours: weather that starts at 16:00 on the day asked about;
  weather that starts at the next midnight; and weather that starts at midnight of day 1
  when asked before that and at 16:00 of the day asked about afterwards.
\<close>

definition eveningWeather :: Env where
  "eveningWeather =
     \<lparr>EPOCH_TIME_FACTOR = 144 / 7, toEarthTime = (\<lambda>m. m / (144 / 7)), alarmHoursBefore = 1,
      getNextWeatherStart = (\<lambda>m w t. (t div 86400000) * 86400000 + 57600000),
      nextWeatherTime = (\<lambda>t. t + 28800000), stackDepth = 2500\<rparr>"

definition midnightWeather :: Env where
  "midnightWeather =
     \<lparr>EPOCH_TIME_FACTOR = 144 / 7, toEarthTime = (\<lambda>m. m / (144 / 7)), alarmHoursBefore = 1,
      getNextWeatherStart = (\<lambda>m w t. (t div 86400000 + 1) * 86400000),
      nextWeatherTime = (\<lambda>t. t + 28800000), stackDepth = 2500\<rparr>"

definition changingWeather :: Env where
  "changingWeather =
     \<lparr>EPOCH_TIME_FACTOR = 144 / 7, toEarthTime = (\<lambda>m. m / (144 / 7)), alarmHoursBefore = 1,
      getNextWeatherStart = (\<lambda>m w t. if t < 86400000 then 86400000
                                       else (t div 86400000) * 86400000 + 57600000),
      nextWeatherTime = (\<lambda>t. t + 28800000), stackDepth = 2500\<rparr>"

definition pattern :: "int list option \<Rightarrow> int \<Rightarrow> int list option \<Rightarrow> Alarm" where
  "pattern hs d ws = \<lparr>itemId = 1, mapId = 1, spawns = hs, duration = d, weathers = ws, groupId = None\<rparr>"

definition groupOf :: "string \<Rightarrow> int \<Rightarrow> AlarmGroup" where
  "groupOf k i = \<lparr>key = Some k, name = k, index = i, enabled = True\<rparr>"

definition shown :: "int \<Rightarrow> bool \<Rightarrow> rat \<Rightarrow> AlarmDisplay" where
  "shown i sp r =
     \<lparr>alarm = \<lparr>itemId = i, mapId = 1, spawns = Some [0], duration = 1, weathers = None, groupId = None\<rparr>,
      spawned = sp, played = False, remainingTime = Some r,
      nextSpawn = \<lparr>hours = Some 0, days = 0, despawn = Some 1\<rparr>\<rparr>"

text \<open>
  The display \<open>createDisplay\<close> builds for an alarm whose spawn hours are present and
  empty: no hour to resolve, and a remaining time that is not a number.
\<close>

definition unknown :: "int \<Rightarrow> bool \<Rightarrow> AlarmDisplay" where
  "unknown i sp =
     \<lparr>alarm = \<lparr>itemId = i, mapId = 1, spawns = Some [], duration = 1, weathers = None, groupId = None\<rparr>,
      spawned = sp, played = False, remainingTime = None,
      nextSpawn = \<lparr>hours = None, days = 0, despawn = None\<rparr>\<rparr>"

section \<open>The sort\<close>

lemma list_three_cases:
  obtains (none) "xs = []" | (one) x where "xs = [x]" | (more) x y rest where "xs = x # y # rest"
  by (cases xs; cases "tl xs") auto

lemma countAndMakeRun_mset:
  "mset (fst (countAndMakeRun c xs)) + mset (snd (countAndMakeRun c xs)) = mset xs"
proof (cases xs rule: list_three_cases)
  case none
  then show ?thesis by simp
next
  case (one x)
  then show ?thesis by simp
next
  case (more elementHigh elementLow rest)
  have "mset (take n ys) + mset (drop n ys) = mset ys" for n and ys :: "'a list"
    by (metis append_take_drop_id mset_append)
  then show ?thesis using more by (simp add: Let_def)
qed

lemma binaryInsert_mset: "mset (binaryInsert c ws p) = add_mset p (mset ws)"
proof -
  have "mset (take n ws) + mset (drop n ws) = mset ws" for n
    by (metis append_take_drop_id mset_append)
  then show ?thesis by (simp add: binaryInsert_def Let_def)
qed

lemma foldl_binaryInsert_mset: "mset (foldl (binaryInsert c) ws rest) = mset ws + mset rest"
  by (induction rest arbitrary: ws) (simp_all add: binaryInsert_mset)

lemma mset_js_sort: "mset (js_sort c xs) = mset xs"
  using countAndMakeRun_mset[of c xs]
  by (simp add: js_sort_def split_beta foldl_binaryInsert_mset)

lemma set_js_sort: "set (js_sort c xs) = set xs"
  using mset_js_sort[of c xs] by (metis set_mset_mset)

lemma js_sort_Nil_iff: "js_sort c xs = [] \<longleftrightarrow> xs = []"
  using mset_js_sort[of c xs] by (metis mset_zero_iff)

lemma js_sort_single: "js_sort c [x] = [x]"
  by (simp add: js_sort_def)

lemma js_sort_pair: "js_sort c [x, y] = (if c y x < 0 then [y, x] else [x, y])"
  by (simp add: js_sort_def Let_def)

lemma set_binaryInsert: "set (binaryInsert c ws p) = insert p (set ws)"
  using binaryInsert_mset[of c ws p] by (metis set_mset_add_mset_insert set_mset_mset)

subsection \<open>A comparator that decides by a key\<close>

lemma countRun_ascending:
  "successively (\<lambda>p q. \<not> c q p < 0) (prev # take (countRun c False prev rest) rest)"
  by (induction rest arbitrary: prev) (simp_all add: Let_def)

lemma countRun_descending:
  "successively (\<lambda>p q. c q p < 0) (prev # take (countRun c True prev rest) rest)"
  by (induction rest arbitrary: prev) (simp_all add: Let_def)

lemma distinct_keys_filter:
  assumes "distinct (map f xs)"
  shows "length (filter (\<lambda>x. f x = q) xs) \<le> 1"
  using assms
proof (induction xs)
  case Nil
  then show ?case by simp
next
  case (Cons x xs)
  show ?case
  proof (cases "f x = q")
    case True
    have "f x \<notin> f ` set xs" using Cons.prems by simp
    then have "\<forall>y\<in>set xs. f y \<noteq> q" using True by blast
    then have "filter (\<lambda>y. f y = q) xs = []" by (simp add: filter_empty_conv)
    then show ?thesis using True by simp
  next
    case False
    then show ?thesis using Cons by simp
  qed
qed

lemma distinct_keys_filter_rev:
  assumes "distinct (map f xs)"
  shows "filter (\<lambda>x. f x = q) (rev xs) = filter (\<lambda>x. f x = q) xs"
proof -
  have "length (filter (\<lambda>x. f x = q) xs) \<le> 1" by (rule distinct_keys_filter[OF assms])
  then have "rev (filter (\<lambda>x. f x = q) xs) = filter (\<lambda>x. f x = q) xs"
    by (cases "filter (\<lambda>x. f x = q) xs") (auto split: if_splits)
  then show ?thesis by (simp add: rev_filter)
qed

lemma countAndMakeRun_by_key:
  fixes f :: "'a \<Rightarrow> 'k::linorder"
  assumes "\<forall>x\<in>set xs. \<forall>y\<in>set xs. (c x y < 0) = (f x < f y)"
  shows "\<exists>ps. xs = ps @ snd (countAndMakeRun c xs)
           \<and> sorted (map f (fst (countAndMakeRun c xs)))
           \<and> (\<forall>q. filter (\<lambda>x. f x = q) (fst (countAndMakeRun c xs)) = filter (\<lambda>x. f x = q) ps)"
proof (cases xs rule: list_three_cases)
  case none
  then show ?thesis by simp
next
  case (one x)
  then show ?thesis by simp
next
  case (more elementHigh elementLow rest)
  then have xs: "xs = elementHigh # elementLow # rest" by simp
  define desc where "desc = (c elementLow elementHigh < 0)"
  define n where "n = 2 + countRun c desc elementLow rest"
  have run: "take n xs = elementHigh # elementLow # take (countRun c desc elementLow rest) rest"
    by (simp add: n_def xs)
  have sub: "set (take n xs) \<subseteq> set xs" by (rule set_take_subset)
  have split: "xs = take n xs @ drop n xs" by simp
  show ?thesis
  proof (cases desc)
    case True
    have "successively (\<lambda>p q. c q p < 0) (take n xs)"
      using countRun_descending[of c elementLow rest] True
      by (simp add: run successively_Cons desc_def)
    then have "successively (\<lambda>p q. f q < f p) (take n xs)"
      by (rule successively_mono) (use assms sub in blast)
    then have "successively (\<lambda>p q. f p < f q) (rev (take n xs))" by simp
    then have "sorted_wrt (\<lambda>p q. f p < f q) (rev (take n xs))"
      by (subst (asm) successively_conv_sorted_wrt) (auto simp: transp_def)
    then have sw: "sorted_wrt (<) (map f (rev (take n xs)))" by (simp add: sorted_wrt_map)
    then have s: "sorted (map f (rev (take n xs)))" and d: "distinct (map f (rev (take n xs)))"
      by (simp_all add: strict_sorted_iff)
    have d': "distinct (map f (take n xs))" using d by (metis distinct_rev rev_map)
    have r: "countAndMakeRun c xs = (rev (take n xs), drop n xs)"
      using True by (simp add: xs n_def desc_def Let_def)
    show ?thesis
      using split s distinct_keys_filter_rev[OF d'] unfolding r
      by (intro exI[of _ "take n xs"]) simp
  next
    case False
    have "successively (\<lambda>p q. \<not> c q p < 0) (take n xs)"
      using countRun_ascending[of c elementLow rest] False
      by (simp add: run successively_Cons desc_def)
    then have "successively (\<lambda>p q. f p \<le> f q) (take n xs)"
    proof (rule successively_mono)
      fix x y assume "x \<in> set (take n xs)" "y \<in> set (take n xs)" "\<not> c y x < 0"
      then have "\<not> f y < f x" using assms sub by blast
      then show "f x \<le> f y" by simp
    qed
    then have "sorted_wrt (\<lambda>p q. f p \<le> f q) (take n xs)"
      by (subst (asm) successively_conv_sorted_wrt) (auto simp: transp_def)
    then have s: "sorted (map f (take n xs))" by (simp add: sorted_map)
    have r: "countAndMakeRun c xs = (take n xs, drop n xs)"
      using False by (simp add: xs n_def desc_def Let_def)
    show ?thesis
      using split s unfolding r
      by (intro exI[of _ "take n xs"]) simp
  qed
qed

lemma binarySearch_by_key:
  fixes f :: "'a \<Rightarrow> 'k::linorder"
  assumes "sorted (map f ws)"
    and "\<forall>y\<in>set ws. (c p y < 0) = (f p < f y)"
    and "left \<le> right" and "right \<le> length ws"
    and "\<forall>i<left. f (ws ! i) \<le> f p"
    and "\<forall>i. right \<le> i \<and> i < length ws \<longrightarrow> f p < f (ws ! i)"
  shows "binarySearch c p ws left right \<le> length ws
       \<and> (\<forall>i<binarySearch c p ws left right. f (ws ! i) \<le> f p)
       \<and> (\<forall>i. binarySearch c p ws left right \<le> i \<and> i < length ws \<longrightarrow> f p < f (ws ! i))"
  using assms
proof (induction c p ws left right rule: binarySearch.induct)
  case (1 c p ws left right)
  show ?case
  proof (cases "left < right")
    case False
    then have "binarySearch c p ws left right = left" by (simp add: binarySearch.simps)
    moreover have "left = right" using False "1.prems"(3) by simp
    ultimately show ?thesis using "1.prems" by simp
  next
    case True
    define mid where "mid = left + (right - left) div 2"
    have mid: "left \<le> mid" "mid < right" using True by (simp_all add: mid_def)
    have midl: "mid < length ws" using mid "1.prems"(4) by simp
    have inset: "ws ! mid \<in> set ws" using midl by simp
    have mono: "f (ws ! i) \<le> f (ws ! j)" if "i \<le> j" "j < length ws" for i j
      using "1.prems"(1) that by (simp add: sorted_iff_nth_mono)
    show ?thesis
    proof (cases "c p (ws ! mid) < 0")
      case less: True
      then have lt: "f p < f (ws ! mid)" using "1.prems"(2) inset by blast
      have eq: "binarySearch c p ws left right = binarySearch c p ws left mid"
        using True less by (subst binarySearch.simps) (simp add: mid_def Let_def)
      have "\<forall>i. mid \<le> i \<and> i < length ws \<longrightarrow> f p < f (ws ! i)"
        using lt mono by (meson less_le_trans)
      from "1.IH"(1)[OF True mid_def less "1.prems"(1,2) mid(1) _ "1.prems"(5) this]
      show ?thesis using eq midl by simp
    next
      case notless: False
      then have le: "f (ws ! mid) \<le> f p" using "1.prems"(2) inset by (auto simp: not_less)
      have eq: "binarySearch c p ws left right = binarySearch c p ws (mid + 1) right"
        using True notless by (subst binarySearch.simps) (simp add: mid_def Let_def)
      have "\<forall>i<mid + 1. f (ws ! i) \<le> f p"
        using le mono midl by (metis Suc_eq_plus1 less_Suc_eq_le order_trans)
      from "1.IH"(2)[OF True mid_def notless "1.prems"(1,2) _ "1.prems"(4) this "1.prems"(6)]
      show ?thesis using eq mid by simp
    qed
  qed
qed

lemma binaryInsert_by_key:
  fixes f :: "'a \<Rightarrow> 'k::linorder"
  assumes "sorted (map f ws)" and "\<forall>y\<in>set ws. (c p y < 0) = (f p < f y)"
  shows "sorted (map f (binaryInsert c ws p))"
    and "filter (\<lambda>x. f x = q) (binaryInsert c ws p) = filter (\<lambda>x. f x = q) (ws @ [p])"
proof -
  define k where "k = binarySearch c p ws 0 (length ws)"
  have "k \<le> length ws \<and> (\<forall>i<k. f (ws ! i) \<le> f p)
      \<and> (\<forall>i. k \<le> i \<and> i < length ws \<longrightarrow> f p < f (ws ! i))"
    unfolding k_def
    by (rule binarySearch_by_key[where f=f and left=0 and right="length ws"])
       (use assms in auto)
  then have k: "k \<le> length ws" "\<forall>i<k. f (ws ! i) \<le> f p"
    "\<forall>i. k \<le> i \<and> i < length ws \<longrightarrow> f p < f (ws ! i)"
    by blast+
  have ins: "binaryInsert c ws p = take k ws @ p # drop k ws"
    by (simp add: binaryInsert_def k_def Let_def)
  have before: "f x \<le> f p" if "x \<in> set (take k ws)" for x
  proof -
    from that obtain i where "i < k" "x = ws ! i"
      using k(1) by (auto simp: in_set_conv_nth)
    then show ?thesis using k(2) by simp
  qed
  have after: "f p < f x" if "x \<in> set (drop k ws)" for x
  proof -
    from that obtain i where "i < length ws - k" "x = ws ! (k + i)"
      by (auto simp: in_set_conv_nth)
    then show ?thesis using k(3) by simp
  qed
  have st: "sorted (map f (take k ws))" and sd: "sorted (map f (drop k ws))"
    using assms(1) by (simp_all add: sorted_map)
  have across: "f x \<le> f y" if "x \<in> set (take k ws)" "y \<in> set (drop k ws)" for x y
    using before[OF that(1)] after[OF that(2)] by simp
  show "sorted (map f (binaryInsert c ws p))"
    unfolding ins using st sd before after across
    by (auto simp: sorted_append less_imp_le)
  have none: "filter (\<lambda>x. f x = f p) (drop k ws) = []"
    unfolding filter_empty_conv using after by (metis less_irrefl)
  have whole: "filter (\<lambda>x. f x = q) (take k ws) @ filter (\<lambda>x. f x = q) (drop k ws)
                 = filter (\<lambda>x. f x = q) ws"
    by (metis append_take_drop_id filter_append)
  show "filter (\<lambda>x. f x = q) (binaryInsert c ws p) = filter (\<lambda>x. f x = q) (ws @ [p])"
  proof (cases "f p = q")
    case True
    then have "filter (\<lambda>x. f x = q) (drop k ws) = []" using none by simp
    then show ?thesis using whole True by (simp add: ins)
  next
    case False
    then show ?thesis using whole by (simp add: ins)
  qed
qed

lemma foldl_binaryInsert_by_key:
  fixes f :: "'a \<Rightarrow> 'k::linorder"
  assumes "\<forall>x\<in>set ws \<union> set rest. \<forall>y\<in>set ws \<union> set rest. (c x y < 0) = (f x < f y)"
    and "sorted (map f ws)" and "\<forall>q. filter (\<lambda>x. f x = q) ws = filter (\<lambda>x. f x = q) ps"
  shows "sorted (map f (foldl (binaryInsert c) ws rest))
       \<and> (\<forall>q. filter (\<lambda>x. f x = q) (foldl (binaryInsert c) ws rest)
                = filter (\<lambda>x. f x = q) (ps @ rest))"
  using assms
proof (induction rest arbitrary: ws ps)
  case Nil
  then show ?case by simp
next
  case (Cons p rest)
  have dec: "\<forall>y\<in>set ws. (c p y < 0) = (f p < f y)" using Cons.prems(1) by simp
  have s: "sorted (map f (binaryInsert c ws p))"
    using binaryInsert_by_key(1)[where f=f and ws=ws and c=c and p=p] Cons.prems(2) dec by blast
  have fl: "\<forall>q. filter (\<lambda>x. f x = q) (binaryInsert c ws p) = filter (\<lambda>x. f x = q) (ps @ [p])"
    using binaryInsert_by_key(2)[where f=f and ws=ws and c=c and p=p] Cons.prems(2,3) dec by simp
  have d: "\<forall>x\<in>set (binaryInsert c ws p) \<union> set rest.
             \<forall>y\<in>set (binaryInsert c ws p) \<union> set rest. (c x y < 0) = (f x < f y)"
    using Cons.prems(1) by (simp add: set_binaryInsert)
  from Cons.IH[where ws="binaryInsert c ws p" and ps="ps @ [p]"] d s fl show ?case by simp
qed

lemma js_sort_by_key:
  fixes f :: "'a \<Rightarrow> 'k::linorder"
  assumes "\<forall>x\<in>set xs. \<forall>y\<in>set xs. (c x y < 0) = (f x < f y)"
  shows "sorted (map f (js_sort c xs))"
    and "filter (\<lambda>x. f x = q) (js_sort c xs) = filter (\<lambda>x. f x = q) xs"
proof -
  obtain ps where ps: "xs = ps @ snd (countAndMakeRun c xs)"
    "sorted (map f (fst (countAndMakeRun c xs)))"
    "\<forall>q. filter (\<lambda>x. f x = q) (fst (countAndMakeRun c xs)) = filter (\<lambda>x. f x = q) ps"
    using countAndMakeRun_by_key[where f=f and c=c and xs=xs] assms by blast
  have sets: "set (fst (countAndMakeRun c xs)) \<union> set (snd (countAndMakeRun c xs)) = set xs"
    using countAndMakeRun_mset[of c xs] by (metis set_mset_mset set_mset_union)
  have d: "\<forall>x\<in>set (fst (countAndMakeRun c xs)) \<union> set (snd (countAndMakeRun c xs)).
             \<forall>y\<in>set (fst (countAndMakeRun c xs)) \<union> set (snd (countAndMakeRun c xs)).
               (c x y < 0) = (f x < f y)"
    unfolding sets by (rule assms)
  have js: "js_sort c xs = foldl (binaryInsert c) (fst (countAndMakeRun c xs)) (snd (countAndMakeRun c xs))"
    by (simp add: js_sort_def split_beta)
  from foldl_binaryInsert_by_key[where f=f and c=c and ws="fst (countAndMakeRun c xs)"
        and rest="snd (countAndMakeRun c xs)" and ps=ps] d ps
  show "sorted (map f (js_sort c xs))"
    and "filter (\<lambda>x. f x = q) (js_sort c xs) = filter (\<lambda>x. f x = q) xs"
    unfolding js by simp_all
qed

lemma binaryInsert_pair:
  "binaryInsert c [a, b] p =
     (if c p b < 0 then (if c p a < 0 then [p, a, b] else [a, p, b]) else [a, b, p])"
  by (simp add: binaryInsert_def binarySearch.simps Let_def)

lemma js_sort_triple:
  "js_sort c [x, y, z] =
     (if c y x < 0 then (if c z y < 0 then [z, y, x] else binaryInsert c [y, x] z)
      else (if c z y < 0 then binaryInsert c [x, y] z else [x, y, z]))"
  by (simp add: js_sort_def Let_def)


section \<open>Dates and remainders\<close>

lemma getUTCMinutes_range: "0 \<le> getUTCMinutes t \<and> getUTCMinutes t < 60"
  by (simp add: getUTCMinutes_def)


lemma js_mod_60_bounds: "- 60 < js_mod x 60 \<and> js_mod x 60 < 60"
proof -
  have "0 \<le> \<bar>x\<bar> mod 60 \<and> \<bar>x\<bar> mod 60 < 60" by simp
  then show ?thesis
    by (cases "x < 0"; cases "x = 0"; simp add: js_mod_def)
qed



section \<open>Minutes before an hour\<close>

lemma getMinutesBefore_near:
  assumes "hours sp = Some h0" and "days sp = 0"
  shows "\<exists>v. getMinutesBefore env t sp 0 = Some v
           \<and> of_int (wholeMinutes t h0) - 1 < v \<and> v < of_int (wholeMinutes t h0) + 1"
proof -
  define q where "q = js_mod (let rs = js_mod ((if h0 = 0 then 24 else h0) - getUTCHours t) 24 * 3600 - getUTCSeconds t in if rs < 0 then rs + 360 else rs) 60"
  have q: "- 60 < q \<and> q < 60" unfolding q_def by (rule js_mod_60_bounds)
  have "getMinutesBefore env t sp 0 = Some (of_int (wholeMinutes t h0) + of_int q / 60)"
    using assms by (simp add: getMinutesBefore_def wholeMinutes_def q_def Let_def)
  moreover have "- 1 < (of_int q :: rat) / 60 \<and> (of_int q :: rat) / 60 < 1"
    using q by simp
  ultimately show ?thesis by auto
qed

lemma compareSpawns_8_20_at_21:
  assumes "getUTCHours time = 21" and "duration a = 2"
  shows "compareSpawns env a time 8 20 = 1" and "compareSpawns env a time 20 8 = - 1"
proof -
  let ?sp = "\<lambda>h. \<lparr>hours = Some h, days = 0, despawn = None\<rparr>"
  have m: "0 \<le> getUTCMinutes time \<and> getUTCMinutes time < 60" by (rule getUTCMinutes_range)
  obtain v8 where v8: "getMinutesBefore env time (?sp 8) 0 = Some v8"
    "of_int (wholeMinutes time 8) - 1 < v8" "v8 < of_int (wholeMinutes time 8) + 1"
    using getMinutesBefore_near[of "?sp 8" 8 env time] by auto
  obtain v10 where v10: "getMinutesBefore env time (?sp 10) 0 = Some v10"
    "of_int (wholeMinutes time 10) - 1 < v10" "v10 < of_int (wholeMinutes time 10) + 1"
    using getMinutesBefore_near[of "?sp 10" 10 env time] by auto
  obtain v20 where v20: "getMinutesBefore env time (?sp 20) 0 = Some v20"
    "of_int (wholeMinutes time 20) - 1 < v20" "v20 < of_int (wholeMinutes time 20) + 1"
    using getMinutesBefore_near[of "?sp 20" 20 env time] by auto
  obtain v22 where v22: "getMinutesBefore env time (?sp 22) 0 = Some v22"
    "of_int (wholeMinutes time 22) - 1 < v22" "v22 < of_int (wholeMinutes time 22) + 1"
    using getMinutesBefore_near[of "?sp 22" 22 env time] by auto
  have w8: "wholeMinutes time 8 = 660 - getUTCMinutes time"
    and w10: "wholeMinutes time 10 = 780 - getUTCMinutes time"
    and w20: "wholeMinutes time 20 = 1380 - getUTCMinutes time"
    and w22: "wholeMinutes time 22 = 60 - getUTCMinutes time"
    using m assms(1) by (simp_all add: wholeMinutes_def js_mod_def)
  have "\<not> v10 < v8" using v8 v10 w8 w10 by simp
  moreover have "v22 < v20" using v20 v22 w20 w22 m by simp
  ultimately show "compareSpawns env a time 8 20 = 1" and "compareSpawns env a time 20 8 = - 1"
    using v8 v10 v20 v22 assms(2) by (simp_all add: compareSpawns_def js_mod_def js_lt_def)
qed

section \<open>Resolution without weathers\<close>

lemma resort_fields [simp]:
  "duration (resort env time a) = duration a"
  "weathers (resort env time a) = weathers a"
  "mapId (resort env time a) = mapId a"
  "itemId (resort env time a) = itemId a"
  "groupId (resort env time a) = groupId a"
  "spawns (resort env time a) = map_option (js_sort (compareSpawns env a time)) (spawns a)"
  by (simp_all add: resort_def)

lemma resolved_days [simp]: "days (resolved env time a) = 0"
  by (simp add: resolved_def plainSpawn_def)

lemma getNextSpawn_resolved:
  assumes "spawns a \<noteq> None" and "weathers a = None"
  shows "getNextSpawn env a time = Some (Inr (resolved env time a, resort env time a))"
  using assms by (auto simp: getNextSpawn_def resolved_def plainSpawn_def resort_def Let_def)

lemma getNextSpawn_alarm:
  assumes "getNextSpawn env a time = Some (Inr (ns, a'))"
  shows "a' = resort env time a"
  using assms
  by (auto simp: getNextSpawn_def resort_def Let_def split: option.splits sum.splits if_splits)



section \<open>Sequencing\<close>

lemma andThen_Some_Inr [simp]: "andThen (Some (Inr x)) f = f x"
  by (simp add: andThen_def)

lemma andThen_eq_Inr:
  "andThen m f = Some (Inr y) \<longleftrightarrow> (\<exists>x. m = Some (Inr x) \<and> f x = Some (Inr y))"
  by (auto simp: andThen_def split: option.splits sum.splits)

lemma isSpawned_eq:
  "isSpawned env a time =
     andThen (getNextSpawn env a time) (\<lambda>(ns, a'). Some (Inr (windowOpen ns time, a')))"
  by (simp add: isSpawned_def windowOpen_def)

lemma createDisplay_eq:
  "createDisplay env a date =
     andThen (isSpawned env a date) (\<lambda>(isSp, a1).
     andThen (isPlayed env a1 date) (\<lambda>(isPl, a2).
     andThen (getNextSpawn env a2 date) (\<lambda>(spawn, a3).
     andThen (getNextSpawn env a3 date) (\<lambda>(next, a4).
       Some (Inr (filledDisplay env date isSp isPl spawn a3 next a4, a4))))))"
  by (simp add: createDisplay_def filledDisplay_def Let_def)

lemma isPlayed_alarm:
  assumes "isPlayed env a time = Some (Inr (b, a'))"
  shows "a' = resort env time a"
  using assms unfolding isPlayed_def andThen_eq_Inr
  by (auto dest: getNextSpawn_alarm)

lemma isSpawned_alarm:
  assumes "isSpawned env a time = Some (Inr (b, a'))"
  shows "a' = resort env time a"
  using assms unfolding isSpawned_eq andThen_eq_Inr
  by (auto dest: getNextSpawn_alarm)

lemma createDisplay_alarm:
  assumes "createDisplay env a time = Some (Inr (d, a'))"
  shows "a' = resort env time (resort env time (resort env time (resort env time a))) \<and> alarm d = a'"
  using assms
  by (auto simp: createDisplay_eq andThen_eq_Inr filledDisplay_def
           dest!: getNextSpawn_alarm isSpawned_alarm isPlayed_alarm)

lemma createDisplay_plain:
  fixes env :: Env and time :: date and a :: Alarm
  assumes "spawns a \<noteq> None" and "weathers a = None"
  defines "a1 \<equiv> resort env time a"
  defines "a2 \<equiv> resort env time a1"
  defines "a3 \<equiv> resort env time a2"
  defines "a4 \<equiv> resort env time a3"
  shows "createDisplay env a time =
     Some (Inr (filledDisplay env time (windowOpen (resolved env time a) time)
                  (js_lt (getMinutesBefore env time (resolved env time a1) 0)
                         (Some (alarmHoursBefore env * 60)))
                  (resolved env time a2) a3 (resolved env time a3) a4, a4))"
proof -
  have d: "spawns a1 \<noteq> None" "spawns a2 \<noteq> None" "spawns a3 \<noteq> None"
    using assms(1) by (simp_all add: a1_def a2_def a3_def)
  have w: "weathers a1 = None" "weathers a2 = None" "weathers a3 = None"
    using assms(2) by (simp_all add: a1_def a2_def a3_def)
  have g0: "getNextSpawn env a time = Some (Inr (resolved env time a, a1))"
    unfolding a1_def by (rule getNextSpawn_resolved[OF assms(1,2)])
  have g1: "getNextSpawn env a1 time = Some (Inr (resolved env time a1, a2))"
    unfolding a2_def by (rule getNextSpawn_resolved[OF d(1) w(1)])
  have g2: "getNextSpawn env a2 time = Some (Inr (resolved env time a2, a3))"
    unfolding a3_def by (rule getNextSpawn_resolved[OF d(2) w(2)])
  have g3: "getNextSpawn env a3 time = Some (Inr (resolved env time a3, a4))"
    unfolding a4_def by (rule getNextSpawn_resolved[OF d(3) w(3)])
  have s0: "isSpawned env a time = Some (Inr (windowOpen (resolved env time a) time, a1))"
    by (simp add: isSpawned_eq g0)
  have p1: "isPlayed env a1 time = Some (Inr (js_lt (getMinutesBefore env time (resolved env time a1) 0)
                                 (Some (alarmHoursBefore env * 60)), a2))"
    by (simp add: isPlayed_def g1)
  show ?thesis
    by (simp add: createDisplay_eq s0 p1 g2 g3)
qed

lemma createDisplay_plain_spawned:
  assumes "spawns a \<noteq> None" and "weathers a = None"
  shows "\<exists>d a'. createDisplay env a time = Some (Inr (d, a'))
           \<and> spawned d = windowOpen (resolved env time a) time"
  using createDisplay_plain[OF assms, of env time] by (simp add: filledDisplay_def)

section \<open>The array of displays\<close>

lemma reordered_refl: "reordered a a"
  by (simp add: reordered_def)

lemma reordered_trans: "reordered a b \<Longrightarrow> reordered b c \<Longrightarrow> reordered a c"
  by (simp add: reordered_def)

lemma reordered_resort: "reordered a (resort env time a)"
  by (cases "spawns a") (simp_all add: reordered_def mset_js_sort)

lemma reordered_defined: "reordered a a' \<Longrightarrow> spawns a \<noteq> None \<Longrightarrow> spawns a' \<noteq> None"
  by (auto simp: reordered_def)

lemma createDisplay_reordered:
  assumes "createDisplay env a time = Some (Inr (d, a'))"
  shows "reordered a a' \<and> alarm d = a'"
proof -
  have "reordered a (resort env time (resort env time (resort env time (resort env time a))))"
    by (blast intro: reordered_trans reordered_resort)
  then show ?thesis using createDisplay_alarm[OF assms] by simp
qed

lemma mapCreateDisplay_reordered:
  assumes "mapCreateDisplay env date as = Some (Inr ds)"
  shows "list_all2 (\<lambda>a d. reordered a (alarm d)) as ds"
  using assms
proof (induction as arbitrary: ds)
  case Nil
  then show ?case by simp
next
  case (Cons a as)
  from Cons.prems obtain d a' ds' where d: "createDisplay env a date = Some (Inr (d, a'))"
    and ds': "mapCreateDisplay env date as = Some (Inr ds')" and ds: "ds = d # ds'"
    by (auto simp: andThen_eq_Inr)
  from createDisplay_reordered[OF d] Cons.IH[OF ds'] ds show ?case by simp
qed

lemma mapCreateDisplay_plain:
  assumes "\<forall>a\<in>set as. spawns a \<noteq> None \<and> weathers a = None"
  shows "\<exists>ds. mapCreateDisplay env date as = Some (Inr ds)"
  using assms
proof (induction as)
  case Nil
  then show ?case by simp
next
  case (Cons a as)
  then obtain ds where ds: "mapCreateDisplay env date as = Some (Inr ds)" by auto
  have "spawns a \<noteq> None" "weathers a = None" using Cons.prems by simp_all
  from createDisplay_plain_spawned[OF this, of env date] obtain d a'
    where "createDisplay env a date = Some (Inr (d, a'))" by blast
  then show ?case using ds by simp
qed

section \<open>The sorting policy\<close>

lemma compareDisplays_key:
  assumes "remainingTime x \<noteq> None" and "remainingTime y \<noteq> None"
  shows "(compareDisplays x y < 0) = (displayKey x < displayKey y)"
  using assms by (auto simp: compareDisplays_def displayKey_def js_lt_def)

lemma displayKey_mayPrecede:
  assumes "remainingTime x \<noteq> None" and "remainingTime y \<noteq> None"
    and "displayKey x \<le> displayKey y"
  shows "mayPrecede x y"
  using assms by (auto simp: displayKey_def mayPrecede_def js_ge_def split: if_splits)


lemma sortAlarmDisplays_by_key:
  assumes "\<forall>d\<in>set ds. remainingTime d \<noteq> None"
  shows "sorted (map displayKey (sortAlarmDisplays ds))"
    and "filter (\<lambda>d. displayKey d = q) (sortAlarmDisplays ds) = filter (\<lambda>d. displayKey d = q) ds"
proof -
  have c: "\<forall>x\<in>set ds. \<forall>y\<in>set ds. (compareDisplays x y < 0) = (displayKey x < displayKey y)"
    using assms compareDisplays_key by blast
  show "sorted (map displayKey (sortAlarmDisplays ds))"
    unfolding sortAlarmDisplays_def
    by (rule js_sort_by_key(1)[where f=displayKey]) (rule c)
  show "filter (\<lambda>d. displayKey d = q) (sortAlarmDisplays ds) = filter (\<lambda>d. displayKey d = q) ds"
    unfolding sortAlarmDisplays_def
    by (rule js_sort_by_key(2)[where f=displayKey]) (rule c)
qed

lemma sortAlarmDisplays_sorted:
  assumes "\<forall>d\<in>set ds. remainingTime d \<noteq> None"
  shows "sorted_wrt mayPrecede (sortAlarmDisplays ds)"
proof -
  have n: "\<forall>d\<in>set (sortAlarmDisplays ds). remainingTime d \<noteq> None"
    using assms by (simp add: sortAlarmDisplays_def set_js_sort)
  have "sorted_wrt (\<lambda>x y. displayKey x \<le> displayKey y) (sortAlarmDisplays ds)"
    using sortAlarmDisplays_by_key(1)[OF assms] by (simp add: sorted_map)
  then show ?thesis
    by (rule sorted_wrt_mono_rel[rotated]) (use n displayKey_mayPrecede in blast)
qed


section \<open>The weather search\<close>

lemma nthIteration_shift:
  "nthIteration env a ws (last (weatherSpawnsAt env a ws iteration) + 86400000) n
     = nthIteration env a ws iteration (Suc n)"
  by (induction n) simp_all

lemma weatherSpawnsAt_Nil_iff: "weatherSpawnsAt env a ws iteration = [] \<longleftrightarrow> ws = []"
  by (simp add: weatherSpawnsAt_def js_sort_Nil_iff)

lemma search_overflow: "findWeatherSpawnCombination env a sortedSpawns time iteration 0 = Some (Inl RangeError)"
  by (subst findWeatherSpawnCombination.simps) simp

lemma search_match:
  assumes "weathers a = Some ws"
    and "matchSpawns env a time sortedSpawns (weatherSpawnsAt env a ws iteration) = Some r"
  shows "findWeatherSpawnCombination env a sortedSpawns time iteration (Suc depth) = Some (Inr r)"
  using assms by (subst findWeatherSpawnCombination.simps) simp

lemma search_step:
  assumes "weathers a = Some ws" and "ws \<noteq> []"
    and "matchSpawns env a time sortedSpawns (weatherSpawnsAt env a ws iteration) = None"
  shows "findWeatherSpawnCombination env a sortedSpawns time iteration (Suc depth)
           = findWeatherSpawnCombination env a sortedSpawns time
               (last (weatherSpawnsAt env a ws iteration) + 86400000) depth"
  using assms by (subst findWeatherSpawnCombination.simps) (simp add: weatherSpawnsAt_Nil_iff)

lemma search_returns:
  "\<exists>r. findWeatherSpawnCombination env a sortedSpawns time iteration depth = Some r"
proof (induction depth arbitrary: iteration)
  case 0
  show ?case by (simp add: search_overflow)
next
  case (Suc depth)
  show ?case
  proof (cases "weathers a")
    case None
    then show ?thesis by (subst findWeatherSpawnCombination.simps) simp
  next
    case (Some ws)
    show ?thesis
    proof (cases "matchSpawns env a time sortedSpawns (weatherSpawnsAt env a ws iteration)")
      case r: (Some r)
      from search_match[OF Some r] show ?thesis by simp
    next
      case n: None
      show ?thesis
      proof (cases "ws = []")
        case True
        then show ?thesis using Some n
          by (subst findWeatherSpawnCombination.simps) (simp add: weatherSpawnsAt_Nil_iff)
      next
        case False
        from search_step[OF Some False n] Suc.IH show ?thesis by simp
      qed
    qed
  qed
qed

lemma search_retries:
  assumes "weathers a = Some ws" and "ws \<noteq> []"
    and "\<forall>k<n. matchSpawns env a time sortedSpawns
                  (weatherSpawnsAt env a ws (nthIteration env a ws iteration k)) = None"
  shows "findWeatherSpawnCombination env a sortedSpawns time iteration (n + depth)
           = findWeatherSpawnCombination env a sortedSpawns time (nthIteration env a ws iteration n) depth"
  using assms(3)
proof (induction n arbitrary: iteration)
  case 0
  show ?case by simp
next
  case (Suc n)
  let ?next = "last (weatherSpawnsAt env a ws iteration) + 86400000"
  have "matchSpawns env a time sortedSpawns
          (weatherSpawnsAt env a ws (nthIteration env a ws iteration 0)) = None"
    using Suc.prems by blast
  then have first: "matchSpawns env a time sortedSpawns (weatherSpawnsAt env a ws iteration) = None"
    by simp
  have step: "findWeatherSpawnCombination env a sortedSpawns time iteration (Suc (n + depth))
                = findWeatherSpawnCombination env a sortedSpawns time ?next (n + depth)"
    by (rule search_step[OF assms(1,2) first])
  have "\<forall>k<n. matchSpawns env a time sortedSpawns
                  (weatherSpawnsAt env a ws (nthIteration env a ws ?next k)) = None"
  proof (intro allI impI)
    fix k assume "k < n"
    then have "Suc k < Suc n" by simp
    with Suc.prems show "matchSpawns env a time sortedSpawns
                  (weatherSpawnsAt env a ws (nthIteration env a ws ?next k)) = None"
      unfolding nthIteration_shift by blast
  qed
  from Suc.IH[OF this] step show ?case
    by (simp only: nthIteration_shift add_Suc)
qed

lemma search_finds:
  assumes "weathers a = Some ws" and "ws \<noteq> []"
    and "\<forall>k<n. matchSpawns env a time sortedSpawns
                  (weatherSpawnsAt env a ws (nthIteration env a ws iteration k)) = None"
    and "matchSpawns env a time sortedSpawns
           (weatherSpawnsAt env a ws (nthIteration env a ws iteration n)) = Some r"
    and "n < depth"
  shows "findWeatherSpawnCombination env a sortedSpawns time iteration depth = Some (Inr r)"
proof -
  from assms(5) obtain m where depth: "depth = n + Suc m"
    by (metis add_Suc_right less_imp_Suc_add)
  have "findWeatherSpawnCombination env a sortedSpawns time (nthIteration env a ws iteration n) (Suc m)
          = Some (Inr r)"
    by (rule search_match[OF assms(1,4)])
  then show ?thesis unfolding depth using search_retries[OF assms(1-3), of "Suc m"] by simp
qed

lemma search_exhausts:
  assumes "weathers a = Some ws" and "ws \<noteq> []"
    and "\<forall>k<depth. matchSpawns env a time sortedSpawns
                  (weatherSpawnsAt env a ws (nthIteration env a ws iteration k)) = None"
  shows "findWeatherSpawnCombination env a sortedSpawns time iteration depth = Some (Inl RangeError)"
  using search_retries[OF assms, of 0] by (simp add: search_overflow)

lemma midnight_hours: "getUTCHours (k * 86400000) = 0"
proof -
  have "(k * 86400000) div 3600000 = k * 24" by simp
  then show ?thesis by (simp add: getUTCHours_def)
qed

lemma midnight_stop: "getUTCHours (k * 86400000 + 28800000) = 8"
proof -
  have "k * 86400000 + 28800000 = (k * 24 + 8) * 3600000" by simp
  then have "(k * 86400000 + 28800000) div 3600000 = k * 24 + 8" by simp
  then show ?thesis by (simp add: getUTCHours_def)
qed

lemma matchSpawns_midnight:
  assumes "getUTCHours T = 0" and "getUTCHours (T + 28800000) = 8"
  shows "matchSpawns midnightWeather (pattern (Some [20]) 2 (Some [1])) time [20] [T] = None"
  using assms by (simp add: midnightWeather_def pattern_def js_mod_def)

lemma weatherSpawns_midnight:
  "weatherSpawnsAt midnightWeather (pattern (Some [20]) 2 (Some [1])) [1] iteration
     = [(iteration div 86400000 + 1) * 86400000]"
  by (simp add: weatherSpawnsAt_def js_sort_single midnightWeather_def)

lemma never_matches:
  "matchSpawns midnightWeather (pattern (Some [20]) 2 (Some [1])) time [20]
     (weatherSpawnsAt midnightWeather (pattern (Some [20]) 2 (Some [1])) [1] iteration) = None"
  unfolding weatherSpawns_midnight
  by (rule matchSpawns_midnight) (rule midnight_hours, rule midnight_stop)

lemma search_runs_out:
  "findWeatherSpawnCombination midnightWeather (pattern (Some [20]) 2 (Some [1])) [20] time iteration depth
     = Some (Inl RangeError)"
proof -
  have w: "weathers (pattern (Some [20]) 2 (Some [1])) = Some [1]" by (simp add: pattern_def)
  have ne: "[1::int] \<noteq> []" by simp
  show ?thesis
    by (rule search_exhausts[OF w ne]) (simp only: never_matches simp_thms)
qed

section \<open>Evaluation at the times of the scenarios\<close>

lemma clock_0800: "getUTCHours 28800000 = 8" "getUTCMinutes 28800000 = 0" "getUTCSeconds 28800000 = 0"
  by (simp_all add: getUTCHours_def getUTCMinutes_def getUTCSeconds_def)


lemma clock_1130: "getUTCHours 41400000 = 11" "getUTCMinutes 41400000 = 30" "getUTCSeconds 41400000 = 0"
  by (simp_all add: getUTCHours_def getUTCMinutes_def getUTCSeconds_def)

lemma clock_2100: "getUTCHours 75600000 = 21" "getUTCMinutes 75600000 = 0" "getUTCSeconds 75600000 = 0"
  by (simp_all add: getUTCHours_def getUTCMinutes_def getUTCSeconds_def)

lemma clock_0000: "getUTCHours 0 = 0" "getUTCMinutes 0 = 0" "getUTCSeconds 0 = 0"
  by (simp_all add: getUTCHours_def getUTCMinutes_def getUTCSeconds_def)

lemma minutes_at:
  "getMinutesBefore env t \<lparr>hours = Some h0, days = d, despawn = e\<rparr> 0 =
     (let h = (if h0 = 0 then 24 else h0);
          resHours = js_mod (h - getUTCHours t) 24;
          resMinutes = resHours * 60 - getUTCMinutes t;
          resSeconds = resHours * 3600 - getUTCSeconds t
      in Some (of_int (if resMinutes < 0 then resMinutes + 1440 else resMinutes)
               + of_int (js_mod (if resSeconds < 0 then resSeconds + 360 else resSeconds) 60) / 60
               + of_int d * 1440 / EPOCH_TIME_FACTOR env))"
  by (simp add: getMinutesBefore_def Let_def)

lemma resolve_8_20_at_21:
  assumes "getUTCHours time = 21" and "spawns a = Some [8, 20] \<or> spawns a = Some [20, 8]"
    and "duration a = 2" and "weathers a = None"
  shows "getNextSpawn env a time =
           Some (Inr (\<lparr>hours = Some 20, days = 0, despawn = Some 22\<rparr>, a\<lparr>spawns := Some [20, 8]\<rparr>))"
  using assms compareSpawns_8_20_at_21[of time a env]
  by (auto simp: getNextSpawn_def js_sort_pair js_mod_def)

section \<open>Remaining time without a day offset\<close>

lemma js_mod_24_bounds: "- 24 < js_mod x 24 \<and> js_mod x 24 < 24"
proof -
  have "0 \<le> \<bar>x\<bar> mod 24 \<and> \<bar>x\<bar> mod 24 < 24" by simp
  then show ?thesis
    by (cases "x < 0"; cases "x = 0"; simp add: js_mod_def)
qed

lemma js_mod_60_nonneg: "0 \<le> x \<Longrightarrow> 0 \<le> js_mod x 60"
  by (cases "x = 0") (simp_all add: js_mod_def)

lemma getMinutesBefore_nonneg:
  assumes "hours sp = Some h0" and "0 \<le> days sp" and "0 < EPOCH_TIME_FACTOR env"
  shows "\<exists>v. getMinutesBefore env t sp 0 = Some v \<and> 0 \<le> v"
proof -
  define rh where "rh = js_mod ((if h0 = 0 then 24 else h0) - getUTCHours t) 24"
  define rm where "rm = rh * 60 - getUTCMinutes t"
  define rs where "rs = rh * 3600 - getUTCSeconds t"
  define rm1 where "rm1 = (if rm < 0 then rm + 1440 else rm)"
  define q where "q = js_mod (if rs < 0 then rs + 360 else rs) 60"
  have rh: "- 24 < rh" "rh < 24" unfolding rh_def using js_mod_24_bounds by simp_all
  have m: "0 \<le> getUTCMinutes t" "getUTCMinutes t < 60" using getUTCMinutes_range by simp_all
  have s: "0 \<le> getUTCSeconds t" "getUTCSeconds t < 60" by (simp_all add: getUTCSeconds_def)
  have q: "- 60 < q" "q < 60" unfolding q_def using js_mod_60_bounds by simp_all
  have v: "getMinutesBefore env t sp 0
             = Some (of_int rm1 + of_int q / 60 + of_int (days sp) * 1440 / EPOCH_TIME_FACTOR env)"
    using assms(1) by (simp add: getMinutesBefore_def Let_def rh_def rm_def rs_def rm1_def q_def)
  have d: "0 \<le> (of_int (days sp) :: rat) * 1440 / EPOCH_TIME_FACTOR env"
    using assms(2,3) by simp
  have base: "(0::rat) \<le> of_int rm1 + of_int q / 60"
  proof (cases "rm1 \<ge> 1")
    case True
    then have "(1::rat) \<le> of_int rm1" by simp
    moreover have "- 1 < (of_int q :: rat) / 60" using q by simp
    ultimately show ?thesis by linarith
  next
    case False
    have rm1: "0 \<le> rm1" unfolding rm1_def rm_def using rh m by auto
    with False have z: "rm1 = 0" by simp
    have "rh = 0"
    proof (rule ccontr)
      assume "rh \<noteq> 0"
      then consider "rh \<ge> 1" | "rh \<le> - 1" by linarith
      then show False
      proof cases
        case 1
        then have "rm \<ge> 1" unfolding rm_def using m by linarith
        then show False using z unfolding rm1_def by simp
      next
        case 2
        then have "rm < 0" unfolding rm_def using m by linarith
        moreover have "rm + 1440 \<ge> 1" unfolding rm_def using rh m by linarith
        ultimately show False using z unfolding rm1_def by simp
      qed
    qed
    then have "rs = - getUTCSeconds t" by (simp add: rs_def)
    then have "0 \<le> (if rs < 0 then rs + 360 else rs)" using s by auto
    then have "0 \<le> q" unfolding q_def by (rule js_mod_60_nonneg)
    then show ?thesis using z by simp
  qed
  show ?thesis using v d base by simp
qed

lemma resolved_hours:
  assumes "spawns a = Some xs" and "xs \<noteq> []"
  shows "\<exists>s. hours (resolved env time a) = Some s"
proof -
  have "js_sort (compareSpawns env a time) xs \<noteq> []" using assms(2) by (simp add: js_sort_Nil_iff)
  then show ?thesis using assms(1)
    by (cases "js_sort (compareSpawns env a time) xs") (simp_all add: resolved_def plainSpawn_def)
qed

lemma resort_nonempty:
  assumes "spawns a = Some xs" and "xs \<noteq> []"
  shows "\<exists>ys. spawns (resort env time a) = Some ys \<and> ys \<noteq> []"
  using assms by (simp add: js_sort_Nil_iff)

lemma plain_remainingTime_nonneg:
  assumes "spawns a = Some xs" and "xs \<noteq> []" and "weathers a = None"
    and "0 < EPOCH_TIME_FACTOR env" and "\<forall>m\<ge>0. 0 \<le> toEarthTime env m"
  shows "\<exists>d a' r. createDisplay env a time = Some (Inr (d, a')) \<and> remainingTime d = Some r \<and> 0 \<le> r"
proof -
  define a1 where "a1 = resort env time a"
  define a2 where "a2 = resort env time a1"
  obtain ys1 where y1: "spawns a1 = Some ys1" "ys1 \<noteq> []"
    using resort_nonempty[OF assms(1,2)] unfolding a1_def by blast
  obtain ys2 where y2: "spawns a2 = Some ys2" "ys2 \<noteq> []"
    using resort_nonempty[OF y1] unfolding a2_def by blast
  obtain s where s: "hours (resolved env time a2) = Some s"
    using resolved_hours[OF y2] by blast
  let ?sp = "windowOpen (resolved env time a) time"
  let ?shifted = "(resolved env time a2)\<lparr>hours := map_option (\<lambda>h. js_mod (h + duration (resort env time a2)) 24)
                      (hours (resolved env time a2))\<rparr>"
  have "\<exists>v. getMinutesBefore env time (resolved env time a2) 0 = Some v \<and> 0 \<le> v"
    by (rule getMinutesBefore_nonneg[OF s _ assms(4)]) simp
  moreover have "\<exists>v. getMinutesBefore env time ?shifted 0 = Some v \<and> 0 \<le> v"
    by (rule getMinutesBefore_nonneg[OF _ _ assms(4)]) (simp_all add: s)
  ultimately obtain v where
    v: "(if ?sp then getMinutesBefore env time ?shifted 0
         else getMinutesBefore env time (resolved env time a2) 0) = Some v" "0 \<le> v"
    by (cases ?sp) auto
  have def: "spawns a \<noteq> None" using assms(1) by simp
  have "remainingTime (filledDisplay env time ?sp
                  (js_lt (getMinutesBefore env time (resolved env time a1) 0)
                         (Some (alarmHoursBefore env * 60)))
                  (resolved env time a2) (resort env time a2) (resolved env time (resort env time a2))
                  (resort env time (resort env time a2))) = Some (toEarthTime env v)"
    using v(1) by (simp add: filledDisplay_def)
  moreover have "0 \<le> toEarthTime env v" using assms(5) v(2) by simp
  ultimately show ?thesis
    using createDisplay_plain[OF def assms(3), of env time] unfolding a1_def a2_def by simp
qed

section \<open>Further facts for the scenarios\<close>

lemma list_all2_set2:
  assumes "list_all2 P xs ys" and "y \<in> set ys"
  shows "\<exists>x\<in>set xs. P x y"
  using assms by (induction rule: list_all2_induct) auto

lemma createDisplayArray_reordered:
  assumes "createDisplayArray env alarmList date = Some (Inr ds)"
  shows "length ds = length (filter (\<lambda>a. spawns a \<noteq> None) alarmList)
       \<and> (\<forall>d\<in>set ds. \<exists>a\<in>set alarmList. spawns a \<noteq> None \<and> reordered a (alarm d))"
proof -
  from assms obtain ds0 where m: "mapCreateDisplay env date (filter (\<lambda>a. spawns a \<noteq> None) alarmList) = Some (Inr ds0)"
    and ds: "ds = sortAlarmDisplays ds0"
    by (auto simp: createDisplayArray_def andThen_eq_Inr)
  have l: "list_all2 (\<lambda>a d. reordered a (alarm d)) (filter (\<lambda>a. spawns a \<noteq> None) alarmList) ds0"
    by (rule mapCreateDisplay_reordered[OF m])
  have "length ds = length ds0"
    using ds mset_js_sort[of compareDisplays ds0] by (metis sortAlarmDisplays_def size_mset)
  moreover have "length ds0 = length (filter (\<lambda>a. spawns a \<noteq> None) alarmList)"
    using l by (simp add: list_all2_lengthD)
  moreover have "\<exists>a\<in>set alarmList. spawns a \<noteq> None \<and> reordered a (alarm d)" if "d \<in> set ds" for d
  proof -
    have "d \<in> set ds0" using that ds by (simp add: sortAlarmDisplays_def set_js_sort)
    from list_all2_set2[OF l this] show ?thesis by auto
  qed
  ultimately show ?thesis by simp
qed



lemma clock_changing:
  "getUTCHours 86400000 = 0" "getUTCHours 115200000 = 8"
  "getUTCHours 230400000 = 16" "getUTCHours 259200000 = 0"
  by (simp_all add: getUTCHours_def)

lemma changing_round_0:
  "weatherSpawnsAt changingWeather (pattern (Some [20]) 2 (Some [1])) [1] 0 = [86400000]"
  by (simp add: weatherSpawnsAt_def js_sort_single changingWeather_def)

lemma changing_round_1:
  "weatherSpawnsAt changingWeather (pattern (Some [20]) 2 (Some [1])) [1] 172800000 = [230400000]"
  by (simp add: weatherSpawnsAt_def js_sort_single changingWeather_def)

lemma changing_no_match:
  "matchSpawns changingWeather (pattern (Some [20]) 2 (Some [1])) 0 [20] [86400000] = None"
  by (simp add: changingWeather_def pattern_def js_mod_def clock_changing)

lemma changing_match:
  "matchSpawns changingWeather (pattern (Some [20]) 2 (Some [1])) 0 [20] [230400000]
     = Some \<lparr>hours = Some 20, days = 2, despawn = Some 24\<rparr>"
  by (simp add: changingWeather_def pattern_def js_mod_def clock_changing setUTCHours_def)

lemma clock_evening: "getUTCHours 57600000 = 16" "getUTCHours 86400000 = 0"
  by (simp_all add: getUTCHours_def)

lemma resolve_rain_at_1130:
  "getNextSpawn eveningWeather (pattern (Some [10]) 2 (Some [1])) 41400000
     = Some (Inr (\<lparr>hours = Some 10, days = - 1, despawn = Some 24\<rparr>, pattern (Some [10]) 2 (Some [1])))"
proof -
  have ws: "weatherSpawnsAt eveningWeather (pattern (Some [10]) 2 (Some [1])) [1] 41400000 = [57600000]"
    by (simp add: weatherSpawnsAt_def js_sort_single eveningWeather_def)
  have m: "matchSpawns eveningWeather (pattern (Some [10]) 2 (Some [1])) 41400000 [10] [57600000]
             = Some \<lparr>hours = Some 10, days = - 1, despawn = Some 24\<rparr>"
    by (simp add: eveningWeather_def pattern_def js_mod_def clock_evening setUTCHours_def)
  have sd: "stackDepth eveningWeather = Suc 2499" by (simp add: eveningWeather_def)
  have f: "findWeatherSpawnCombination eveningWeather (pattern (Some [10]) 2 (Some [1])) [10] 41400000 41400000
             (Suc 2499)
             = Some (Inr \<lparr>hours = Some 10, days = - 1, despawn = Some 24\<rparr>)"
  proof -
    have w: "weathers (pattern (Some [10]) 2 (Some [1])) = Some [1]" by (simp add: pattern_def)
    show ?thesis
      by (rule search_match[OF w]) (simp only: ws m)
  qed
  show ?thesis
    using f by (simp add: getNextSpawn_def js_sort_single pattern_def sd del: One_nat_def)
qed

section \<open>The alarms behind the views\<close>

lemma list_all2_reordered_refl: "list_all2 reordered xs xs"
  by (simp add: list_all2_refl reordered_refl)

lemma list_all2_reordered_trans:
  assumes "list_all2 reordered xs ys" and "list_all2 reordered ys zs"
  shows "list_all2 reordered xs zs"
  using reordered_trans assms by (rule list_all2_trans)

lemma displayEach_reordered:
  assumes "displayEach env date chosen as = Some (Inr (ds, as'))"
  shows "list_all2 reordered as as' \<and> (\<forall>d\<in>set ds. \<exists>a\<in>set as. chosen a \<and> reordered a (alarm d))"
  using assms
proof (induction as arbitrary: ds as')
  case Nil
  then show ?case by simp
next
  case (Cons a as)
  show ?case
  proof (cases "chosen a")
    case True
    with Cons.prems obtain d a' ds0 as0 where d: "createDisplay env a date = Some (Inr (d, a'))"
      and r: "displayEach env date chosen as = Some (Inr (ds0, as0))"
      and eq: "ds = d # ds0" "as' = a' # as0"
      by (auto simp: andThen_eq_Inr)
    from createDisplay_reordered[OF d] Cons.IH[OF r] eq True show ?thesis by auto
  next
    case False
    with Cons.prems obtain as0 where r: "displayEach env date chosen as = Some (Inr (ds, as0))"
      and eq: "as' = a # as0"
      by (auto simp: andThen_eq_Inr)
    from Cons.IH[OF r] eq show ?thesis by (auto simp: reordered_refl)
  qed
qed

lemma displayEach_displays:
  "map_option (map_sum id fst) (displayEach env date chosen as)
     = mapCreateDisplay env date (filter chosen as)"
proof (induction as)
  case Nil
  show ?case by simp
next
  case (Cons a as)
  show ?case
  proof (cases "chosen a")
    case True
    show ?thesis
      using Cons.IH True
      by (cases "createDisplay env a date"; cases "displayEach env date chosen as")
         (auto simp: andThen_def split: option.splits sum.splits)
  next
    case False
    show ?thesis
      using Cons.IH False
      by (cases "displayEach env date chosen as")
         (auto simp: andThen_def split: option.splits sum.splits)
  qed
qed

lemma createDisplayArrayOf_displays:
  "map_option (map_sum id fst) (createDisplayArrayOf env chosen alarmList date)
     = createDisplayArray env (filter chosen alarmList) date"
proof -
  have "mapCreateDisplay env date (filter (\<lambda>a. spawns a \<noteq> None) (filter chosen alarmList))
          = map_option (map_sum id fst)
              (displayEach env date (\<lambda>a. chosen a \<and> spawns a \<noteq> None) alarmList)"
    by (simp add: displayEach_displays)
  then show ?thesis
    by (cases "displayEach env date (\<lambda>a. chosen a \<and> spawns a \<noteq> None) alarmList")
       (auto simp: createDisplayArrayOf_def createDisplayArray_def andThen_def
             split: option.splits sum.splits)
qed

lemma createDisplayArrayOf_reordered:
  assumes "createDisplayArrayOf env chosen alarmList date = Some (Inr (ds, alarmList'))"
  shows "list_all2 reordered alarmList alarmList'
       \<and> (\<forall>d\<in>set ds. \<exists>a\<in>set alarmList. chosen a \<and> spawns a \<noteq> None \<and> reordered a (alarm d))"
proof -
  from assms obtain ds0 where e: "displayEach env date (\<lambda>a. chosen a \<and> spawns a \<noteq> None) alarmList
                                    = Some (Inr (ds0, alarmList'))"
    and ds: "ds = sortAlarmDisplays ds0"
    by (auto simp: createDisplayArrayOf_def andThen_eq_Inr)
  have "set ds = set ds0" using ds by (simp add: sortAlarmDisplays_def set_js_sort)
  then show ?thesis using displayEach_reordered[OF e] by simp
qed

lemma groupDisplays_reordered:
  assumes "groupDisplays env date gs alarmList = Some (Inr (gds, alarmList'))"
  shows "list_all2 reordered alarmList alarmList' \<and> map group gds = gs"
  using assms
proof (induction gs arbitrary: alarmList gds alarmList')
  case Nil
  then show ?case by (simp add: list_all2_reordered_refl)
next
  case (Cons g gs)
  from Cons.prems obtain ds alarmList1 gds0
    where c: "createDisplayArrayOf env (\<lambda>a. groupId a \<noteq> None \<and> groupId a = key g) alarmList date
                = Some (Inr (ds, alarmList1))"
      and r: "groupDisplays env date gs alarmList1 = Some (Inr (gds0, alarmList'))"
      and eq: "gds = \<lparr>group = g, alarms = ds\<rparr> # gds0"
    by (auto simp: andThen_eq_Inr)
  from createDisplayArrayOf_reordered[OF c] Cons.IH[OF r] eq show ?case
    by (auto intro: list_all2_reordered_trans)
qed

lemma alarmsPageDisplay_reordered:
  assumes "alarmsPageDisplay env date alarmList groups = Some (Inr (page, alarmList', groups'))"
  shows "list_all2 reordered alarmList alarmList' \<and> mset groups' = mset groups
       \<and> map group (groupedAlarms page) = groups'"
proof -
  from assms obtain grouped alarmList1 ungrouped
    where g: "groupDisplays env date (js_sort compareGroups groups) alarmList
                = Some (Inr (grouped, alarmList1))"
      and c: "createDisplayArrayOf env
                (\<lambda>a. find (\<lambda>g. key g \<noteq> None \<and> key g = groupId a) (js_sort compareGroups groups) = None)
                alarmList1 date = Some (Inr (ungrouped, alarmList'))"
      and eq: "page = \<lparr>groupedAlarms = grouped, noGroup = ungrouped\<rparr>"
              "groups' = js_sort compareGroups groups"
    by (auto simp: alarmsPageDisplay_def Let_def andThen_eq_Inr)
  from groupDisplays_reordered[OF g] createDisplayArrayOf_reordered[OF c] eq show ?thesis
    by (auto simp: mset_js_sort intro: list_all2_reordered_trans)
qed

lemma alarmsSidebarDisplay_mset:
  "mset (alarmsSidebarDisplay page)
     = mset (noGroup page @ concat (map alarms (filter (\<lambda>gd. enabled (group gd)) (groupedAlarms page))))"
  by (simp only: alarmsSidebarDisplay_def sortAlarmDisplays_def mset_js_sort)

section \<open>Alarms with at most one spawn hour\<close>

lemma resort_short:
  assumes "spawns a = Some xs" and "length xs \<le> 1"
  shows "resort env t a = a"
proof -
  have "js_sort (compareSpawns env a t) xs = xs"
    using assms(2) by (cases xs rule: list_three_cases) (simp_all add: js_sort_def)
  then show ?thesis using assms(1) by (cases a) (simp add: resort_def)
qed

lemma createDisplay_short:
  assumes "spawns a = Some xs" and "length xs \<le> 1" and "weathers a = None"
  shows "createDisplay env a t =
     Some (Inr (filledDisplay env t (windowOpen (resolved env t a) t)
                  (js_lt (getMinutesBefore env t (resolved env t a) 0)
                         (Some (alarmHoursBefore env * 60)))
                  (resolved env t a) a (resolved env t a) a, a))"
proof -
  have d: "spawns a \<noteq> None" using assms(1) by simp
  have r: "resort env t a = a" by (rule resort_short[OF assms(1,2)])
  show ?thesis using createDisplay_plain[OF d assms(3), of env t] by (simp only: r)
qed

lemma resolved_single:
  assumes "spawns a = Some [h]"
  shows "resolved env t a = \<lparr>hours = Some h, days = 0, despawn = Some (js_mod (h + duration a) 24)\<rparr>"
  using assms by (simp add: resolved_def plainSpawn_def js_sort_single)

lemma resolved_empty:
  assumes "spawns a = Some []"
  shows "resolved env t a = \<lparr>hours = None, days = 0, despawn = None\<rparr>"
  using assms by (simp add: resolved_def plainSpawn_def js_sort_def)

lemma empty_spawns_display:
  "createDisplay env \<lparr>itemId = i, mapId = 1, spawns = Some [], duration = 1, weathers = None, groupId = None\<rparr> t
     = Some (Inr (unknown i False,
                  \<lparr>itemId = i, mapId = 1, spawns = Some [], duration = 1, weathers = None, groupId = None\<rparr>))"
proof -
  let ?a = "\<lparr>itemId = i, mapId = 1, spawns = Some [], duration = 1, weathers = None, groupId = None\<rparr>"
  have s: "spawns ?a = Some []" and l: "length ([]::int list) \<le> 1" and w: "weathers ?a = None"
    by simp_all
  have r: "resolved env t ?a = \<lparr>hours = None, days = 0, despawn = None\<rparr>"
    by (rule resolved_empty[OF s])
  show ?thesis
    unfolding createDisplay_short[OF s l w] r
    by (simp add: filledDisplay_def windowOpen_def getMinutesBefore_def js_gt_def js_ge_def js_lt_def
                  unknown_def)
qed

section \<open>Displays of the scenarios\<close>

lemma pattern_fields:
  "spawns (pattern hs d ws) = hs" "duration (pattern hs d ws) = d"
  "weathers (pattern hs d ws) = ws" "groupId (pattern hs d ws) = None"
  by (simp_all add: pattern_def)

lemma compareDisplays_shown:
  "compareDisplays (shown i sp r) (shown j sq q) =
     (if sp \<and> sq then (if r < q then - 1 else 1)
      else if sp then - 1 else if sq then 1 else (if r < q then - 1 else 1))"
  by (simp add: compareDisplays_def shown_def js_lt_def)


lemma display_10_at_0:
  "createDisplay eveningWeather (pattern (Some [10]) 2 None) 0
     = Some (Inr (\<lparr>alarm = pattern (Some [10]) 2 None, spawned = False, played = False,
                    remainingTime = Some (175 / 6),
                    nextSpawn = \<lparr>hours = Some 10, days = 0, despawn = Some 12\<rparr>\<rparr>,
                  pattern (Some [10]) 2 None))"
proof -
  let ?a = "pattern (Some [10]) 2 None"
  have s: "spawns ?a = Some [10]" and l: "length [10::int] \<le> 1" and w: "weathers ?a = None"
    by (simp_all add: pattern_fields)
  have r: "resolved eveningWeather 0 ?a = \<lparr>hours = Some 10, days = 0, despawn = Some 12\<rparr>"
    by (simp add: resolved_single[OF s] pattern_fields js_mod_def)
  have m: "getMinutesBefore eveningWeather 0 \<lparr>hours = Some 10, days = 0, despawn = Some 12\<rparr> 0 = Some 600"
    by (simp add: minutes_at clock_0000 js_mod_def)
  have o: "\<not> windowOpen \<lparr>hours = Some 10, days = 0, despawn = Some 12\<rparr> 0"
    by (simp add: windowOpen_def clock_0000 js_gt_def js_ge_def js_lt_def)
  have t: "toEarthTime eveningWeather 600 = 175 / 6" "alarmHoursBefore eveningWeather = 1"
    by (simp_all add: eveningWeather_def)
  show ?thesis
    unfolding createDisplay_short[OF s l w] r
    by (simp add: filledDisplay_def o m t js_lt_def)
qed

lemma display_5_at_0:
  "createDisplay eveningWeather (pattern (Some [5]) 2 None) 0
     = Some (Inr (\<lparr>alarm = pattern (Some [5]) 2 None, spawned = False, played = False,
                    remainingTime = Some (175 / 12),
                    nextSpawn = \<lparr>hours = Some 5, days = 0, despawn = Some 7\<rparr>\<rparr>,
                  pattern (Some [5]) 2 None))"
proof -
  let ?a = "pattern (Some [5]) 2 None"
  have s: "spawns ?a = Some [5]" and l: "length [5::int] \<le> 1" and w: "weathers ?a = None"
    by (simp_all add: pattern_fields)
  have r: "resolved eveningWeather 0 ?a = \<lparr>hours = Some 5, days = 0, despawn = Some 7\<rparr>"
    by (simp add: resolved_single[OF s] pattern_fields js_mod_def)
  have m: "getMinutesBefore eveningWeather 0 \<lparr>hours = Some 5, days = 0, despawn = Some 7\<rparr> 0 = Some 300"
    by (simp add: minutes_at clock_0000 js_mod_def)
  have o: "\<not> windowOpen \<lparr>hours = Some 5, days = 0, despawn = Some 7\<rparr> 0"
    by (simp add: windowOpen_def clock_0000 js_gt_def js_ge_def js_lt_def)
  have t: "toEarthTime eveningWeather 300 = 175 / 12" "alarmHoursBefore eveningWeather = 1"
    by (simp_all add: eveningWeather_def)
  show ?thesis
    unfolding createDisplay_short[OF s l w] r
    by (simp add: filledDisplay_def o m t js_lt_def)
qed

lemma display_none_at_0:
  "createDisplay eveningWeather (pattern (Some []) 2 None) 0
     = Some (Inr (\<lparr>alarm = pattern (Some []) 2 None, spawned = False, played = False,
                    remainingTime = None,
                    nextSpawn = \<lparr>hours = None, days = 0, despawn = None\<rparr>\<rparr>,
                  pattern (Some []) 2 None))"
proof -
  let ?a = "pattern (Some []) 2 None"
  have s: "spawns ?a = Some []" and l: "length ([]::int list) \<le> 1" and w: "weathers ?a = None"
    by (simp_all add: pattern_fields)
  have r: "resolved eveningWeather 0 ?a = \<lparr>hours = None, days = 0, despawn = None\<rparr>"
    by (rule resolved_empty[OF s])
  show ?thesis
    unfolding createDisplay_short[OF s l w] r
    by (simp add: filledDisplay_def windowOpen_def getMinutesBefore_def js_gt_def js_ge_def js_lt_def)
qed

lemma sort_three_shown:
  "sortAlarmDisplays [shown 1 False 5, shown 2 True 7, shown 3 True 2]
     = [shown 3 True 2, shown 2 True 7, shown 1 False 5]"
  by (simp add: sortAlarmDisplays_def js_sort_triple compareDisplays_shown)

lemma compareSpawns_2_4_at_0:
  assumes "duration a = 1"
  shows "compareSpawns eveningWeather a 0 2 4 = - 1" and "compareSpawns eveningWeather a 0 4 2 = 1"
  using assms by (simp_all add: compareSpawns_def minutes_at clock_0000 js_mod_def js_lt_def)

lemma resolve_4_2_at_0:
  "getNextSpawn eveningWeather (pattern (Some [4, 2]) 1 None) 0
     = Some (Inr (\<lparr>hours = Some 2, days = 0, despawn = Some 3\<rparr>, pattern (Some [2, 4]) 1 None))"
  using compareSpawns_2_4_at_0[of "pattern (Some [4, 2]) 1 None"]
  by (simp add: getNextSpawn_def js_sort_pair pattern_def js_mod_def)

lemma resolve_2_4_at_0:
  "getNextSpawn eveningWeather (pattern (Some [2, 4]) 1 None) 0
     = Some (Inr (\<lparr>hours = Some 2, days = 0, despawn = Some 3\<rparr>, pattern (Some [2, 4]) 1 None))"
  using compareSpawns_2_4_at_0[of "pattern (Some [2, 4]) 1 None"]
  by (simp add: getNextSpawn_def js_sort_pair pattern_def js_mod_def)

lemma display_4_2_at_0:
  "createDisplay eveningWeather (pattern (Some [4, 2]) 1 None) 0
     = Some (Inr (\<lparr>alarm = pattern (Some [2, 4]) 1 None, spawned = False, played = False,
                    remainingTime = Some (35 / 6),
                    nextSpawn = \<lparr>hours = Some 2, days = 0, despawn = Some 3\<rparr>\<rparr>,
                  pattern (Some [2, 4]) 1 None))"
proof -
  have o: "\<not> windowOpen \<lparr>hours = Some 2, days = 0, despawn = Some 3\<rparr> 0"
    by (simp add: windowOpen_def clock_0000 js_gt_def js_ge_def js_lt_def)
  have m: "getMinutesBefore eveningWeather 0 \<lparr>hours = Some 2, days = 0, despawn = Some 3\<rparr> 0 = Some 120"
    by (simp add: minutes_at clock_0000 js_mod_def)
  have t: "toEarthTime eveningWeather 120 = 35 / 6" "alarmHoursBefore eveningWeather = 1"
    by (simp_all add: eveningWeather_def)
  have s: "isSpawned eveningWeather (pattern (Some [4, 2]) 1 None) 0
             = Some (Inr (False, pattern (Some [2, 4]) 1 None))"
    by (simp add: isSpawned_eq resolve_4_2_at_0 o)
  have p: "isPlayed eveningWeather (pattern (Some [2, 4]) 1 None) 0
             = Some (Inr (False, pattern (Some [2, 4]) 1 None))"
    by (simp add: isPlayed_def resolve_2_4_at_0 m t js_lt_def)
  show ?thesis
    by (simp add: createDisplay_eq s p resolve_2_4_at_0 filledDisplay_def m t)
qed

lemma page_4_2_at_0:
  "alarmsPageDisplay eveningWeather 0 [pattern (Some [4, 2]) 1 None]
       [groupOf ''late'' 2, groupOf ''early'' 1]
     = Some (Inr (\<lparr>groupedAlarms = [\<lparr>group = groupOf ''early'' 1, alarms = []\<rparr>,
                                     \<lparr>group = groupOf ''late'' 2, alarms = []\<rparr>],
                    noGroup = [\<lparr>alarm = pattern (Some [2, 4]) 1 None, spawned = False, played = False,
                                remainingTime = Some (35 / 6),
                                nextSpawn = \<lparr>hours = Some 2, days = 0, despawn = Some 3\<rparr>\<rparr>]\<rparr>,
                  [pattern (Some [2, 4]) 1 None],
                  [groupOf ''early'' 1, groupOf ''late'' 2]))"
proof -
  have g: "js_sort compareGroups [groupOf ''late'' 2, groupOf ''early'' 1]
             = [groupOf ''early'' 1, groupOf ''late'' 2]"
    by (simp add: js_sort_pair compareGroups_def groupOf_def)
  have k: "key (groupOf ''early'' 1) = Some ''early''" "key (groupOf ''late'' 2) = Some ''late''"
    by (simp_all add: groupOf_def)
  have e: "js_sort compareDisplays [] = []" by (simp add: js_sort_def)
  show ?thesis
    unfolding alarmsPageDisplay_def g Let_def
    by (simp add: createDisplayArrayOf_def pattern_fields k display_4_2_at_0
                  sortAlarmDisplays_def js_sort_single e)
qed

lemma array_4_2_at_0:
  "createDisplayArrayOf eveningWeather (\<lambda>a. True) [pattern (Some [4, 2]) 1 None] 0
     = Some (Inr ([\<lparr>alarm = pattern (Some [2, 4]) 1 None, spawned = False, played = False,
                      remainingTime = Some (35 / 6),
                      nextSpawn = \<lparr>hours = Some 2, days = 0, despawn = Some 3\<rparr>\<rparr>],
                  [pattern (Some [2, 4]) 1 None]))"
  by (simp add: createDisplayArrayOf_def pattern_fields display_4_2_at_0 sortAlarmDisplays_def
                js_sort_single)

section \<open>The claims\<close>

subsection \<open>C1: scenario B, hour 21\<close>

text \<open>
  Claim C1, as stated, is false. For the pattern with spawn hours 8 and 20 and duration 2
  without weathers, at 21:00:00 \<open>getNextSpawn\<close> returns hour 20, despawn hour 22 and
  day offset 0, not hour 8, despawn hour 10 and day offset 1: at hour 21 the slot that
  opened at 20 is still open, and it sorts first.
\<close>

theorem scenario_B_counterexample:
  "resolveNextSpawn eveningWeather (pattern (Some [8, 20]) 2 None) 75600000
     = Some (Inr \<lparr>hours = Some 20, days = 0, despawn = Some 22\<rparr>)
   \<and> resolveNextSpawn eveningWeather (pattern (Some [8, 20]) 2 None) 75600000
     \<noteq> Some (Inr \<lparr>hours = Some 8, days = 1, despawn = Some 10\<rparr>)"
proof -
  have "getNextSpawn eveningWeather (pattern (Some [8, 20]) 2 None) 75600000 =
          Some (Inr (\<lparr>hours = Some 20, days = 0, despawn = Some 22\<rparr>,
                     (pattern (Some [8, 20]) 2 None)\<lparr>spawns := Some [20, 8]\<rparr>))"
    by (rule resolve_8_20_at_21) (simp_all add: clock_2100 pattern_def)
  then show ?thesis by (simp add: resolveNextSpawn_def)
qed

text \<open>
  Claim C1, amended: for the pattern with spawn hours 8 and 20, held in either order, and
  duration 2 without weathers, at every time whose hour is 21 (any minute and second)
  \<open>getNextSpawn\<close> returns hour 20, despawn hour 22 and day offset 0.
\<close>

theorem scenario_B_open_slot:
  assumes "getUTCHours time = 21" and "spawns a = Some [8, 20] \<or> spawns a = Some [20, 8]"
    and "duration a = 2" and "weathers a = None" and "EPOCH_TIME_FACTOR env \<noteq> 0"
  shows "resolveNextSpawn env a time = Some (Inr \<lparr>hours = Some 20, days = 0, despawn = Some 22\<rparr>)"
  using resolve_8_20_at_21[OF assms(1-4), of env] by (simp add: resolveNextSpawn_def)

text \<open>
  The amended statement at 21:05:07.
\<close>

theorem scenario_B_open_slot_witness:
  "getUTCHours 75907000 = 21 \<and> EPOCH_TIME_FACTOR eveningWeather \<noteq> 0
   \<and> resolveNextSpawn eveningWeather (pattern (Some [8, 20]) 2 None) 75907000
       = Some (Inr \<lparr>hours = Some 20, days = 0, despawn = Some 22\<rparr>)"
proof -
  have h: "getUTCHours 75907000 = 21" by (simp add: getUTCHours_def)
  have s: "spawns (pattern (Some [8, 20]) 2 None) = Some [8, 20]
           \<or> spawns (pattern (Some [8, 20]) 2 None) = Some [20, 8]"
    and d: "duration (pattern (Some [8, 20]) 2 None) = 2"
    and w: "weathers (pattern (Some [8, 20]) 2 None) = None"
    by (simp_all add: pattern_def)
  have f: "EPOCH_TIME_FACTOR eveningWeather \<noteq> 0" by (simp add: eveningWeather_def)
  from scenario_B_open_slot[OF h s d w f] h f show ?thesis by simp
qed

subsection \<open>C2: inside the resolved window, the display is spawned\<close>



subsection \<open>C3: the weather search goes on while the stack lasts\<close>

text \<open>
  Claim C3, as stated, is false. With weather that always starts at the next midnight and
  lasts until 08:00, the pattern with spawn hour 20, duration 2 and one required weather
  never finds a combination. No lookahead stops the search and no \<open>SchedulingTimeout\<close>
  is reported: with room for 2500 nested calls the search makes them all, and
  \<open>getNextSpawn\<close> ends in the engine's \<open>RangeError\<close>.
\<close>

theorem weather_search_counterexample:
  "getNextSpawn midnightWeather (pattern (Some [20]) 2 (Some [1])) 0 = Some (Inl RangeError)"
  using search_runs_out[of 0 0 "stackDepth midnightWeather"]
  by (simp add: getNextSpawn_def pattern_def js_sort_single)

text \<open>
  Claim C3, amended: when no spawn hour matches among the weather starts known at the
  current \<open>iteration\<close>, the search goes on from one day past the latest of them, for as
  long as the call stack has room and with no maximum lookahead of its own. It returns on
  every input: the first round that finds a combination gives the result when the stack
  reaches that far, and when the stack runs out before any round has matched, the search
  fails with \<open>RangeError\<close>.
\<close>

theorem search_retries_while_stack_lasts:
  "(\<exists>outcome. findWeatherSpawnCombination env a sortedSpawns time iteration depth = Some outcome)
   \<and> (weathers a = Some ws \<and> ws \<noteq> []
        \<and> (\<forall>k<n. matchSpawns env a time sortedSpawns
                     (weatherSpawnsAt env a ws (nthIteration env a ws iteration k)) = None)
        \<and> matchSpawns env a time sortedSpawns
              (weatherSpawnsAt env a ws (nthIteration env a ws iteration n)) = Some r
        \<and> n < depth
      \<longrightarrow> findWeatherSpawnCombination env a sortedSpawns time iteration depth = Some (Inr r))
   \<and> (weathers a = Some ws \<and> ws \<noteq> []
        \<and> (\<forall>k<depth. matchSpawns env a time sortedSpawns
                     (weatherSpawnsAt env a ws (nthIteration env a ws iteration k)) = None)
      \<longrightarrow> findWeatherSpawnCombination env a sortedSpawns time iteration depth = Some (Inl RangeError))"
proof (intro conjI impI)
  show "\<exists>outcome. findWeatherSpawnCombination env a sortedSpawns time iteration depth = Some outcome"
    by (rule search_returns)
next
  assume h: "weathers a = Some ws \<and> ws \<noteq> []
        \<and> (\<forall>k<n. matchSpawns env a time sortedSpawns
                     (weatherSpawnsAt env a ws (nthIteration env a ws iteration k)) = None)
        \<and> matchSpawns env a time sortedSpawns
              (weatherSpawnsAt env a ws (nthIteration env a ws iteration n)) = Some r
        \<and> n < depth"
  show "findWeatherSpawnCombination env a sortedSpawns time iteration depth = Some (Inr r)"
    by (rule search_finds[of a ws n env time sortedSpawns iteration r depth]) (use h in blast)+
next
  assume h: "weathers a = Some ws \<and> ws \<noteq> []
        \<and> (\<forall>k<depth. matchSpawns env a time sortedSpawns
                     (weatherSpawnsAt env a ws (nthIteration env a ws iteration k)) = None)"
  show "findWeatherSpawnCombination env a sortedSpawns time iteration depth = Some (Inl RangeError)"
    by (rule search_exhausts[of a ws depth env time sortedSpawns iteration]) (use h in blast)+
qed

text \<open>
  One round without a match, then a match two days ahead: found with room for two calls,
  \<open>RangeError\<close> with room for one.
\<close>

theorem search_retries_while_stack_lasts_witness:
  "matchSpawns changingWeather (pattern (Some [20]) 2 (Some [1])) 0 [20]
      (weatherSpawnsAt changingWeather (pattern (Some [20]) 2 (Some [1])) [1] 0) = None
   \<and> findWeatherSpawnCombination changingWeather (pattern (Some [20]) 2 (Some [1])) [20] 0 0 2
       = Some (Inr \<lparr>hours = Some 20, days = 2, despawn = Some 24\<rparr>)
   \<and> findWeatherSpawnCombination changingWeather (pattern (Some [20]) 2 (Some [1])) [20] 0 0 1
       = Some (Inl RangeError)"
proof -
  let ?a = "pattern (Some [20]) 2 (Some [1])"
  have w: "weathers ?a = Some [1]" by (simp add: pattern_def)
  have ne: "[1::int] \<noteq> []" by simp
  have r0: "matchSpawns changingWeather ?a 0 [20] (weatherSpawnsAt changingWeather ?a [1] 0) = None"
    by (simp only: changing_round_0 changing_no_match)
  have it: "nthIteration changingWeather ?a [1] 0 (Suc 0) = 172800000"
    by (simp add: changing_round_0)
  have fail: "\<forall>k<1. matchSpawns changingWeather ?a 0 [20]
                  (weatherSpawnsAt changingWeather ?a [1] (nthIteration changingWeather ?a [1] 0 k)) = None"
    using r0 by simp
  have hit: "matchSpawns changingWeather ?a 0 [20]
           (weatherSpawnsAt changingWeather ?a [1] (nthIteration changingWeather ?a [1] 0 1))
             = Some \<lparr>hours = Some 20, days = 2, despawn = Some 24\<rparr>"
    using it by (simp only: One_nat_def changing_round_1 changing_match)
  have room: "(1::nat) < 2" by simp
  from search_retries_while_stack_lasts[of changingWeather ?a "[20]" 0 0 2 "[1]" 1
         "\<lparr>hours = Some 20, days = 2, despawn = Some 24\<rparr>"] w ne fail hit room
  have found: "findWeatherSpawnCombination changingWeather ?a [20] 0 0 2
                 = Some (Inr \<lparr>hours = Some 20, days = 2, despawn = Some 24\<rparr>)"
    by blast
  from search_retries_while_stack_lasts[of changingWeather ?a "[20]" 0 0 1 "[1]" 1
         "\<lparr>hours = Some 20, days = 2, despawn = Some 24\<rparr>"] w ne fail
  have lost: "findWeatherSpawnCombination changingWeather ?a [20] 0 0 1 = Some (Inl RangeError)"
    by blast
  from r0 found lost show ?thesis by simp
qed

subsection \<open>C4: no pattern is rejected\<close>

text \<open>
  Claim C4, as stated, is false. A pattern with spawn hour 8 and duration 30, outside
  1..23, resolves at 09:00:00 to hour 8 and despawn hour 14; nothing is rejected.
\<close>

theorem invalid_pattern_counterexample:
  "resolveNextSpawn eveningWeather (pattern (Some [8]) 30 None) 32400000
     = Some (Inr \<lparr>hours = Some 8, days = 0, despawn = Some 14\<rparr>)"
  by (simp add: resolveNextSpawn_def getNextSpawn_def pattern_def js_sort_single js_mod_def)

text \<open>
  Claim C4, amended: \<open>getNextSpawn\<close> validates nothing. For every alarm without
  weathers whose spawn hours are present, whatever its duration, it returns a spawn with
  day offset 0: with no spawn hour, one whose hour is undefined and whose despawn hour is
  not a number; otherwise one of the spawn hours \<open>s\<close>, with despawn hour
  \<open>(s + duration) % 24\<close>.
\<close>

theorem resolution_without_validation:
  assumes "spawns a = Some xs" and "weathers a = None"
  shows "\<exists>ns. resolveNextSpawn env a time = Some (Inr ns) \<and> days ns = 0
           \<and> (xs = [] \<longrightarrow> hours ns = None \<and> despawn ns = None)
           \<and> (xs \<noteq> [] \<longrightarrow> (\<exists>s\<in>set xs. hours ns = Some s
                                 \<and> despawn ns = Some (js_mod (s + duration a) 24)))"
proof -
  let ?ys = "js_sort (compareSpawns env a time) xs"
  have def: "spawns a \<noteq> None" using assms(1) by simp
  have g: "resolveNextSpawn env a time = Some (Inr (plainSpawn ?ys (duration a)))"
    using assms(1) by (simp add: resolveNextSpawn_def getNextSpawn_resolved[OF def assms(2)] resolved_def)
  have e: "xs = [] \<longrightarrow> hours (plainSpawn ?ys (duration a)) = None \<and> despawn (plainSpawn ?ys (duration a)) = None"
    by (simp add: plainSpawn_def js_sort_def)
  have n: "\<exists>s\<in>set xs. hours (plainSpawn ?ys (duration a)) = Some s
             \<and> despawn (plainSpawn ?ys (duration a)) = Some (js_mod (s + duration a) 24)" if "xs \<noteq> []"
  proof -
    from that obtain s rest where ys: "?ys = s # rest"
      using js_sort_Nil_iff[of "compareSpawns env a time" xs] by (cases ?ys) auto
    then have "s \<in> set xs" using set_js_sort[of "compareSpawns env a time" xs] by (metis list.set_intros(1))
    then show ?thesis using ys by (auto simp: plainSpawn_def)
  qed
  show ?thesis using g e n by (auto simp: plainSpawn_def)
qed

text \<open>
  The amended statement for a pattern with no spawn hour.
\<close>

theorem resolution_without_validation_witness:
  "resolveNextSpawn eveningWeather (pattern (Some []) 2 None) 32400000
     = Some (Inr \<lparr>hours = None, days = 0, despawn = None\<rparr>)"
proof -
  have s: "spawns (pattern (Some []) 2 None) = Some []" and w: "weathers (pattern (Some []) 2 None) = None"
    by (simp_all add: pattern_def)
  from resolution_without_validation[OF s w, of eveningWeather 32400000]
  obtain ns where "resolveNextSpawn eveningWeather (pattern (Some []) 2 None) 32400000 = Some (Inr ns)"
    and "days ns = 0" and "hours ns = None" and "despawn ns = None"
    by auto
  then show ?thesis by (cases ns) simp
qed

subsection \<open>C5: a negative remaining time\<close>

text \<open>
  Claim C5 fails on the code. The pattern with spawn hour 10, duration 2 and one required
  weather, at 11:30:00, with that weather next starting at 16:00 of the same day: the
  search takes the branch for weather that stops after the spawn hour, moves the weather
  start to 10:00 of its day, which is before now, and reports day offset -1. The display
  is spawned and its remaining time is the 30 minutes until hour 12 less one game day,
  -40 game minutes, negative after the conversion too.
\<close>

theorem negative_remaining_time:
  "displayOf eveningWeather (pattern (Some [10]) 2 (Some [1])) 41400000
     = Some (Inr \<lparr>alarm = pattern (Some [10]) 2 (Some [1]), spawned = True, played = False,
                   remainingTime = Some (- 35 / 18),
                   nextSpawn = \<lparr>hours = Some 10, days = - 1, despawn = Some 24\<rparr>\<rparr>)"
proof -
  have w: "windowOpen \<lparr>hours = Some 10, days = - 1, despawn = Some 24\<rparr> 41400000"
    by (simp add: windowOpen_def clock_1130 js_gt_def js_ge_def js_lt_def)
  have s: "isSpawned eveningWeather (pattern (Some [10]) 2 (Some [1])) 41400000
             = Some (Inr (True, pattern (Some [10]) 2 (Some [1])))"
    by (simp add: isSpawned_eq resolve_rain_at_1130 w)
  have m: "getMinutesBefore eveningWeather 41400000 \<lparr>hours = Some 10, days = - 1, despawn = Some 24\<rparr> 0 = Some 1280"
    by (simp add: minutes_at clock_1130 js_mod_def eveningWeather_def)
  have p: "isPlayed eveningWeather (pattern (Some [10]) 2 (Some [1])) 41400000
             = Some (Inr (False, pattern (Some [10]) 2 (Some [1])))"
    by (simp add: isPlayed_def resolve_rain_at_1130 m js_lt_def) (simp add: eveningWeather_def)
  have d: "duration (pattern (Some [10]) 2 (Some [1])) = 2" by (simp add: pattern_def)
  have m2: "getMinutesBefore eveningWeather 41400000 \<lparr>hours = Some 12, days = - 1, despawn = Some 24\<rparr> 0 = Some (- 40)"
    by (simp add: minutes_at clock_1130 js_mod_def eveningWeather_def)
  have t: "toEarthTime eveningWeather (- 40) = - 35 / 18" by (simp add: eveningWeather_def)
  show ?thesis
    by (simp add: displayOf_def createDisplay_eq s p resolve_rain_at_1130 filledDisplay_def d js_mod_def m2 t)
qed

subsection \<open>C6: the order of the sorted displays\<close>

text \<open>
  Claim C6, as stated, is false. \<open>createDisplayArray\<close> lets an alarm through whose
  spawn hours are present and empty; its display has a remaining time that is not a
  number, and for two displays of one partition the comparator answers 1 whenever one of
  the two remaining times is not a number. At 00:00:00 the alarms with spawn hour 10, with no spawn hour and with spawn
  hour 5 give three displays, none spawned, that stay in that order: the remaining time
  175/6 comes before 175/12.
\<close>

theorem unsorted_beside_NaN:
  "createDisplayArray eveningWeather
     [pattern (Some [10]) 2 None, pattern (Some []) 2 None, pattern (Some [5]) 2 None] 0
   = Some (Inr
       [\<lparr>alarm = pattern (Some [10]) 2 None, spawned = False, played = False,
          remainingTime = Some (175 / 6),
          nextSpawn = \<lparr>hours = Some 10, days = 0, despawn = Some 12\<rparr>\<rparr>,
        \<lparr>alarm = pattern (Some []) 2 None, spawned = False, played = False,
          remainingTime = None,
          nextSpawn = \<lparr>hours = None, days = 0, despawn = None\<rparr>\<rparr>,
        \<lparr>alarm = pattern (Some [5]) 2 None, spawned = False, played = False,
          remainingTime = Some (175 / 12),
          nextSpawn = \<lparr>hours = Some 5, days = 0, despawn = Some 7\<rparr>\<rparr>])"
proof -
  let ?d10 = "\<lparr>alarm = pattern (Some [10]) 2 None, spawned = False, played = False,
                remainingTime = Some (175 / 6),
                nextSpawn = \<lparr>hours = Some 10, days = 0, despawn = Some 12\<rparr>\<rparr>"
  let ?dn = "\<lparr>alarm = pattern (Some []) 2 None, spawned = False, played = False,
               remainingTime = None,
               nextSpawn = \<lparr>hours = None, days = 0, despawn = None\<rparr>\<rparr>"
  let ?d5 = "\<lparr>alarm = pattern (Some [5]) 2 None, spawned = False, played = False,
               remainingTime = Some (175 / 12),
               nextSpawn = \<lparr>hours = Some 5, days = 0, despawn = Some 7\<rparr>\<rparr>"
  have m: "mapCreateDisplay eveningWeather 0
             [pattern (Some [10]) 2 None, pattern (Some []) 2 None, pattern (Some [5]) 2 None]
             = Some (Inr [?d10, ?dn, ?d5])"
    by (simp add: display_10_at_0 display_none_at_0 display_5_at_0)
  have c: "compareDisplays ?dn ?d10 = 1" "compareDisplays ?d5 ?dn = 1"
    by (simp_all add: compareDisplays_def js_lt_def)
  have srt: "sortAlarmDisplays [?d10, ?dn, ?d5] = [?d10, ?dn, ?d5]"
    unfolding sortAlarmDisplays_def js_sort_triple c by simp
  have f: "filter (\<lambda>a. spawns a \<noteq> None)
             [pattern (Some [10]) 2 None, pattern (Some []) 2 None, pattern (Some [5]) 2 None]
             = [pattern (Some [10]) 2 None, pattern (Some []) 2 None, pattern (Some [5]) 2 None]"
    by (simp add: pattern_fields)
  show ?thesis
    unfolding createDisplayArray_def f m by (simp add: srt)
qed

text \<open>
  Claim C6, amended: for every list of displays whose remaining times are numbers,
  \<open>sortAlarmDisplays\<close> returns the same displays in an order where no spawned display
  comes after one that is not spawned, and where, of two displays of the same partition,
  the later one has a remaining time at least that of the earlier one.
\<close>

theorem sorted_view:
  assumes "\<forall>d\<in>set ds. remainingTime d \<noteq> None"
  shows "mset (sortAlarmDisplays ds) = mset ds
       \<and> (\<forall>i j. i < j \<and> j < length (sortAlarmDisplays ds) \<longrightarrow>
            (spawned (sortAlarmDisplays ds ! j) \<longrightarrow> spawned (sortAlarmDisplays ds ! i))
          \<and> (spawned (sortAlarmDisplays ds ! i) = spawned (sortAlarmDisplays ds ! j) \<longrightarrow>
               js_ge (remainingTime (sortAlarmDisplays ds ! j)) (remainingTime (sortAlarmDisplays ds ! i))))"
proof -
  have "\<forall>i j. i < j \<and> j < length (sortAlarmDisplays ds) \<longrightarrow>
          mayPrecede (sortAlarmDisplays ds ! i) (sortAlarmDisplays ds ! j)"
    using sortAlarmDisplays_sorted[OF assms] by (simp add: sorted_wrt_iff_nth_less)
  then show ?thesis
    by (auto simp: mayPrecede_def sortAlarmDisplays_def mset_js_sort)
qed

text \<open>
  Three displays: one not spawned at 5, two spawned at 7 and at 2.
\<close>

theorem sorted_view_witness:
  "sortAlarmDisplays [shown 1 False 5, shown 2 True 7, shown 3 True 2]
     = [shown 3 True 2, shown 2 True 7, shown 1 False 5]
   \<and> mset (sortAlarmDisplays [shown 1 False 5, shown 2 True 7, shown 3 True 2])
       = mset [shown 1 False 5, shown 2 True 7, shown 3 True 2]
   \<and> spawned (sortAlarmDisplays [shown 1 False 5, shown 2 True 7, shown 3 True 2] ! 0)
   \<and> js_ge (remainingTime (sortAlarmDisplays [shown 1 False 5, shown 2 True 7, shown 3 True 2] ! 1))
            (remainingTime (sortAlarmDisplays [shown 1 False 5, shown 2 True 7, shown 3 True 2] ! 0))"
proof -
  let ?ds = "[shown 1 False 5, shown 2 True 7, shown 3 True 2]"
  have h: "\<forall>d\<in>set ?ds. remainingTime d \<noteq> None" by (simp add: shown_def)
  have l: "(0::nat) < 1 \<and> 1 < length (sortAlarmDisplays ?ds)" by (simp add: sort_three_shown)
  have s1: "spawned (sortAlarmDisplays ?ds ! 1)"
    unfolding sort_three_shown by (simp add: shown_def)
  from sorted_view[OF h] have m: "mset (sortAlarmDisplays ?ds) = mset ?ds"
    and o: "(spawned (sortAlarmDisplays ?ds ! 1) \<longrightarrow> spawned (sortAlarmDisplays ?ds ! 0))
          \<and> (spawned (sortAlarmDisplays ?ds ! 0) = spawned (sortAlarmDisplays ?ds ! 1) \<longrightarrow>
               js_ge (remainingTime (sortAlarmDisplays ?ds ! 1)) (remainingTime (sortAlarmDisplays ?ds ! 0)))"
    using l by blast+
  from o s1 have "spawned (sortAlarmDisplays ?ds ! 0)"
    and "js_ge (remainingTime (sortAlarmDisplays ?ds ! 1)) (remainingTime (sortAlarmDisplays ?ds ! 0))"
    by simp_all
  then show ?thesis using m sort_three_shown by simp
qed

subsection \<open>C7: played while spawned\<close>

text \<open>
  Claim C7 fails on the code, whose own comment on \<open>isPlayed\<close> says that played means
  not spawned yet. \<open>isPlayed\<close> only compares the game minutes before the resolved hour
  with \<open>alarmHoursBefore * 60\<close>; it looks neither at \<open>spawned\<close> nor at the remaining
  time of the display. For spawn hour 8 and duration 2 at 08:00:00, with a lead time of
  one hour, the display is spawned and played at once.
\<close>

theorem spawned_and_played:
  "displayOf eveningWeather (pattern (Some [8]) 2 None) 28800000
     = Some (Inr \<lparr>alarm = pattern (Some [8]) 2 None, spawned = True, played = True,
                   remainingTime = Some (35 / 6),
                   nextSpawn = \<lparr>hours = Some 8, days = 0, despawn = Some 10\<rparr>\<rparr>)"
proof -
  let ?a = "pattern (Some [8]) 2 None"
  have g: "getNextSpawn eveningWeather ?a 28800000
             = Some (Inr (\<lparr>hours = Some 8, days = 0, despawn = Some 10\<rparr>, ?a))"
    by (simp add: getNextSpawn_def pattern_def js_sort_single js_mod_def)
  have w: "windowOpen \<lparr>hours = Some 8, days = 0, despawn = Some 10\<rparr> 28800000"
    by (simp add: windowOpen_def clock_0800 js_gt_def js_ge_def js_lt_def)
  have s: "isSpawned eveningWeather ?a 28800000 = Some (Inr (True, ?a))"
    by (simp add: isSpawned_eq g w)
  have m: "getMinutesBefore eveningWeather 28800000 \<lparr>hours = Some 8, days = 0, despawn = Some 10\<rparr> 0 = Some 0"
    by (simp add: minutes_at clock_0800 js_mod_def)
  have p: "isPlayed eveningWeather ?a 28800000 = Some (Inr (True, ?a))"
    by (simp add: isPlayed_def g m js_lt_def) (simp add: eveningWeather_def)
  have d: "duration ?a = 2" by (simp add: pattern_def)
  have m2: "getMinutesBefore eveningWeather 28800000 \<lparr>hours = Some 10, days = 0, despawn = Some 10\<rparr> 0 = Some 120"
    by (simp add: minutes_at clock_0800 js_mod_def)
  have t: "toEarthTime eveningWeather 120 = 35 / 6" by (simp add: eveningWeather_def)
  show ?thesis
    by (simp add: displayOf_def createDisplay_eq s p g filledDisplay_def d js_mod_def m2 t)
qed

subsection \<open>C8: displays with equal remaining time\<close>




subsection \<open>C9: what the operations do to alarms and groups\<close>

text \<open>
  Claim C9, as stated, is false. \<open>getNextSpawn\<close> sorts the spawn hours of the alarm in
  place: for spawn hours 4, 2 and duration 1 at 00:00:00 the alarm is left with spawn
  hours 2, 4. \<open>alarmsPageDisplay\<close> sorts the array of groups in place: given that alarm
  and the groups with index 2 and index 1, in that order, it leaves the alarm with spawn
  hours 2, 4 and the groups in the order 1, 2.
\<close>

theorem resolution_reorders_in_place:
  "map_option (map_sum id snd) (getNextSpawn eveningWeather (pattern (Some [4, 2]) 1 None) 0)
     = Some (Inr (pattern (Some [2, 4]) 1 None))
   \<and> pattern (Some [2, 4]) 1 None \<noteq> pattern (Some [4, 2]) 1 None
   \<and> map_option (map_sum id snd)
       (alarmsPageDisplay eveningWeather 0 [pattern (Some [4, 2]) 1 None]
          [groupOf ''late'' 2, groupOf ''early'' 1])
     = Some (Inr ([pattern (Some [2, 4]) 1 None], [groupOf ''early'' 1, groupOf ''late'' 2]))"
  by (simp add: resolve_4_2_at_0 page_4_2_at_0) (simp add: pattern_def)

text \<open>
  Claim C9, amended: \<open>getNextSpawn\<close>, \<open>createDisplay\<close>, \<open>createDisplayArray\<close> on any
  selection of an array of alarms (\<open>createDisplayArrayOf\<close>) and \<open>alarmsPageDisplay\<close>
  change nothing of an alarm
  but the order of its spawn hours: every alarm of the array is left with the same item,
  map, duration, weathers and group, and the same spawn hours, each as many times; the
  alarm of a display is an alarm so left. \<open>alarmsPageDisplay\<close> leaves the array of groups
  with the same group records, possibly in another order, and shows the groups in the
  order it leaves them. \<open>alarmsSidebarDisplay\<close> returns the displays of the page display
  it is given, those of the alarms without group and of the enabled groups, each as many
  times.
\<close>

theorem patterns_and_groups_only_reordered:
  "(getNextSpawn env a time = Some (Inr (ns, a')) \<longrightarrow> reordered a a')
   \<and> (createDisplay env a time = Some (Inr (d, a'')) \<longrightarrow> reordered a a'' \<and> alarm d = a'')
   \<and> (createDisplayArrayOf env chosen alarmList time = Some (Inr (ds, alarmList')) \<longrightarrow>
        list_all2 reordered alarmList alarmList'
        \<and> (\<forall>x\<in>set ds. \<exists>y\<in>set alarmList. chosen y \<and> reordered y (alarm x)))
   \<and> (alarmsPageDisplay env time alarmList groups = Some (Inr (page, alarmList'', groups')) \<longrightarrow>
        list_all2 reordered alarmList alarmList'' \<and> mset groups' = mset groups
        \<and> map group (groupedAlarms page) = groups')
   \<and> mset (alarmsSidebarDisplay page)
       = mset (noGroup page @ concat (map alarms (filter (\<lambda>gd. enabled (group gd)) (groupedAlarms page))))"
proof (intro conjI impI)
  assume "getNextSpawn env a time = Some (Inr (ns, a'))"
  from getNextSpawn_alarm[OF this] show "reordered a a'" by (simp add: reordered_resort)
next
  assume c: "createDisplay env a time = Some (Inr (d, a''))"
  from createDisplay_reordered[OF c] show "reordered a a''" and "alarm d = a''" by simp_all
next
  assume c: "createDisplayArrayOf env chosen alarmList time = Some (Inr (ds, alarmList'))"
  from createDisplayArrayOf_reordered[OF c]
  show "list_all2 reordered alarmList alarmList'"
    and "\<forall>x\<in>set ds. \<exists>y\<in>set alarmList. chosen y \<and> reordered y (alarm x)" by blast+
next
  assume p: "alarmsPageDisplay env time alarmList groups = Some (Inr (page, alarmList'', groups'))"
  from alarmsPageDisplay_reordered[OF p]
  show "list_all2 reordered alarmList alarmList''" and "mset groups' = mset groups"
    and "map group (groupedAlarms page) = groups'" by simp_all
next
  show "mset (alarmsSidebarDisplay page)
       = mset (noGroup page @ concat (map alarms (filter (\<lambda>gd. enabled (group gd)) (groupedAlarms page))))"
    by (rule alarmsSidebarDisplay_mset)
qed

text \<open>
  The amended statement for the alarm with spawn hours 4, 2 at 00:00:00 and two groups
  given out of order.
\<close>

theorem patterns_and_groups_only_reordered_witness:
  "getNextSpawn eveningWeather (pattern (Some [4, 2]) 1 None) 0
     = Some (Inr (\<lparr>hours = Some 2, days = 0, despawn = Some 3\<rparr>, pattern (Some [2, 4]) 1 None))
   \<and> map_option (map_sum id snd) (createDisplay eveningWeather (pattern (Some [4, 2]) 1 None) 0)
       = Some (Inr (pattern (Some [2, 4]) 1 None))
   \<and> map_option (map_sum id snd)
         (createDisplayArrayOf eveningWeather (\<lambda>a. True) [pattern (Some [4, 2]) 1 None] 0)
       = Some (Inr [pattern (Some [2, 4]) 1 None])
   \<and> map_option (map_sum id snd)
         (alarmsPageDisplay eveningWeather 0 [pattern (Some [4, 2]) 1 None]
            [groupOf ''late'' 2, groupOf ''early'' 1])
       = Some (Inr ([pattern (Some [2, 4]) 1 None], [groupOf ''early'' 1, groupOf ''late'' 2]))
   \<and> reordered (pattern (Some [4, 2]) 1 None) (pattern (Some [2, 4]) 1 None)
   \<and> list_all2 reordered [pattern (Some [4, 2]) 1 None] [pattern (Some [2, 4]) 1 None]
   \<and> mset [groupOf ''early'' 1, groupOf ''late'' 2] = mset [groupOf ''late'' 2, groupOf ''early'' 1]"
proof -
  let ?D = "\<lparr>alarm = pattern (Some [2, 4]) 1 None, spawned = False, played = False,
              remainingTime = Some (35 / 6),
              nextSpawn = \<lparr>hours = Some 2, days = 0, despawn = Some 3\<rparr>\<rparr>"
  let ?page = "\<lparr>groupedAlarms = [\<lparr>group = groupOf ''early'' 1, alarms = []\<rparr>,
                                   \<lparr>group = groupOf ''late'' 2, alarms = []\<rparr>],
                 noGroup = [?D]\<rparr>"
  note t = patterns_and_groups_only_reordered[where env = eveningWeather
      and a = "pattern (Some [4, 2]) 1 None" and time = 0
      and ns = "\<lparr>hours = Some 2, days = 0, despawn = Some 3\<rparr>"
      and a' = "pattern (Some [2, 4]) 1 None" and d = ?D and a'' = "pattern (Some [2, 4]) 1 None"
      and chosen = "\<lambda>a. True" and alarmList = "[pattern (Some [4, 2]) 1 None]"
      and ds = "[?D]" and alarmList' = "[pattern (Some [2, 4]) 1 None]"
      and groups = "[groupOf ''late'' 2, groupOf ''early'' 1]" and page = ?page
      and alarmList'' = "[pattern (Some [2, 4]) 1 None]"
      and groups' = "[groupOf ''early'' 1, groupOf ''late'' 2]"]
  have r: "reordered (pattern (Some [4, 2]) 1 None) (pattern (Some [2, 4]) 1 None)"
    using t resolve_4_2_at_0 by blast
  have l: "list_all2 reordered [pattern (Some [4, 2]) 1 None] [pattern (Some [2, 4]) 1 None]"
    using t array_4_2_at_0 by blast
  have g: "mset [groupOf ''early'' 1, groupOf ''late'' 2] = mset [groupOf ''late'' 2, groupOf ''early'' 1]"
    using t page_4_2_at_0 by blast
  show ?thesis
    using r l g by (simp add: resolve_4_2_at_0 display_4_2_at_0 array_4_2_at_0 page_4_2_at_0)
qed

subsection \<open>C10: alarms without spawn hours\<close>

text \<open>
  Claim C10: \<open>createDisplayArray\<close>, from which the page and the sidebar views take
  every list of displays they show, gives the same result for a list of alarms as for
  that list without the alarms whose spawn hours are absent. When it returns, there is
  one display for each alarm with spawn hours and none for the others; and when the
  alarms with spawn hours have no weathers it does return, so an alarm without spawn
  hours raises nothing.
\<close>

theorem absent_spawns_omitted:
  "createDisplayArray env alarmList date
     = createDisplayArray env (filter (\<lambda>a. spawns a \<noteq> None) alarmList) date
   \<and> (\<forall>ds. createDisplayArray env alarmList date = Some (Inr ds) \<longrightarrow>
          length ds = length (filter (\<lambda>a. spawns a \<noteq> None) alarmList)
        \<and> (\<forall>d\<in>set ds. spawns (alarm d) \<noteq> None))
   \<and> ((\<forall>a\<in>set alarmList. spawns a \<noteq> None \<longrightarrow> weathers a = None) \<longrightarrow>
        (\<exists>ds. createDisplayArray env alarmList date = Some (Inr ds)))"
proof (intro conjI allI impI)
  show "createDisplayArray env alarmList date
     = createDisplayArray env (filter (\<lambda>a. spawns a \<noteq> None) alarmList) date"
    by (simp add: createDisplayArray_def)
next
  fix ds assume r: "createDisplayArray env alarmList date = Some (Inr ds)"
  from createDisplayArray_reordered[OF r]
  show "length ds = length (filter (\<lambda>a. spawns a \<noteq> None) alarmList)" by simp
  show "\<forall>d\<in>set ds. spawns (alarm d) \<noteq> None"
    using createDisplayArray_reordered[OF r] reordered_defined by blast
next
  assume "\<forall>a\<in>set alarmList. spawns a \<noteq> None \<longrightarrow> weathers a = None"
  then have "\<forall>a\<in>set (filter (\<lambda>a. spawns a \<noteq> None) alarmList). spawns a \<noteq> None \<and> weathers a = None"
    by simp
  from mapCreateDisplay_plain[OF this, of env date]
  show "\<exists>ds. createDisplayArray env alarmList date = Some (Inr ds)"
    by (auto simp: createDisplayArray_def)
qed

text \<open>
  An alarm without spawn hours, on which \<open>getNextSpawn\<close> alone would throw, beside one
  with spawn hour 8: one display.
\<close>

theorem absent_spawns_omitted_witness:
  "getNextSpawn eveningWeather (pattern None 2 None) 28800000 = Some (Inl TypeError)
   \<and> map_option (map_sum id length)
        (createDisplayArray eveningWeather [pattern None 2 None, pattern (Some [8]) 2 None] 28800000)
       = Some (Inr 1)
   \<and> map_option (map_sum id (list_all (\<lambda>d. spawns (alarm d) \<noteq> None)))
        (createDisplayArray eveningWeather [pattern None 2 None, pattern (Some [8]) 2 None] 28800000)
       = Some (Inr True)"
proof -
  let ?as = "[pattern None 2 None, pattern (Some [8]) 2 None]"
  have e: "getNextSpawn eveningWeather (pattern None 2 None) 28800000 = Some (Inl TypeError)"
    by (simp add: getNextSpawn_def pattern_def)
  have p: "\<forall>a\<in>set ?as. spawns a \<noteq> None \<longrightarrow> weathers a = None" by (simp add: pattern_def)
  have f: "length (filter (\<lambda>a. spawns a \<noteq> None) ?as) = 1" by (simp add: pattern_def)
  from absent_spawns_omitted[of eveningWeather ?as 28800000] p
  obtain ds where ds: "createDisplayArray eveningWeather ?as 28800000 = Some (Inr ds)" by blast
  from absent_spawns_omitted[of eveningWeather ?as 28800000] ds f
  have "length ds = 1" and "\<forall>d\<in>set ds. spawns (alarm d) \<noteq> None" by auto
  then show ?thesis using e ds by (simp add: list_all_iff)
qed

end
